theory Spec2Isabelle
  imports Complex_Main
begin

section \<open>Python values, exceptions and the constants of the store's interface\<close>

text \<open>
  Both scripts are Python run inside the store's own interpreter. An exception that is
  raised is a value of \<open>py_error\<close>; a function that may raise returns
  \<open>py_error + 'a\<close>. Floats are carried, never computed with, and are modelled as
  \<open>real\<close>; integers are \<open>int\<close>; a string is a \<open>string\<close>, whose characters
  are read as code points below 256.
\<close>

datatype py_error = AttributeError | IndexError | KeyError | TypeError | RuntimeError

text \<open>
  An attribute read with \<open>getattr(o, name, default)\<close> or a key read with
  \<open>d.get(name, default)\<close>: it is missing, it is there and holds \<open>None\<close> (JSON
  \<open>null\<close>), or it holds a value.
\<close>

datatype 'a field = Missing | IsNone | Has 'a

text \<open>
  A symbolic constant of \<open>abaqusConstants\<close> is determined by its name, which is what
  \<open>str\<close> returns.
\<close>

datatype symconst = SymbolicConstant string

definition NODAL :: symconst where
  "NODAL = SymbolicConstant ''NODAL''"

definition ELEMENT_NODAL :: symconst where
  "ELEMENT_NODAL = SymbolicConstant ''ELEMENT_NODAL''"

definition INTEGRATION_POINT :: symconst where
  "INTEGRATION_POINT = SymbolicConstant ''INTEGRATION_POINT''"

definition WHOLE_ELEMENT :: symconst where
  "WHOLE_ELEMENT = SymbolicConstant ''WHOLE_ELEMENT''"

definition TIME :: symconst where
  "TIME = SymbolicConstant ''TIME''"

fun str_const :: "symconst \<Rightarrow> string" where
  "str_const (SymbolicConstant n) = n"

text \<open>Payloads of a field value: a float, \<open>None\<close>, a list or a tuple.\<close>

datatype pyval = PyFloat real | PyNone | PyList "pyval list" | PyTuple "pyval list"

text \<open>\<open>float(x)\<close>: the identity on a float, \<open>TypeError\<close> on \<open>None\<close>, a list or a tuple.\<close>

fun py_float :: "pyval \<Rightarrow> py_error + real" where
  "py_float (PyFloat r) = Inr r"
| "py_float PyNone = Inl TypeError"
| "py_float (PyList xs) = Inl TypeError"
| "py_float (PyTuple xs) = Inl TypeError"

text \<open>\<open>isinstance(x, (list, tuple))\<close>, with the items when it holds.\<close>

fun seq_items :: "pyval \<Rightarrow> pyval list option" where
  "seq_items (PyList xs) = Some xs"
| "seq_items (PyTuple xs) = Some xs"
| "seq_items (PyFloat r) = None"
| "seq_items PyNone = None"

text \<open>\<open>int(x)\<close> of a label that is an integer or \<open>None\<close>.\<close>

fun py_int :: "int option \<Rightarrow> py_error + int" where
  "py_int None = Inl TypeError"
| "py_int (Some i) = Inr i"

section \<open>The exporter (export_odb_nt11.py)\<close>

subsection \<open>The source store as the exporter reads it\<close>

text \<open>
  A section point is read with \<open>getattr(sp, "number", None)\<close> and
  \<open>getattr(sp, "description", None)\<close> only, so an attribute that is missing and one that
  holds \<open>None\<close> are the same to the exporter: both are \<open>None\<close> here. The handle tells two
  section point objects of the store apart.
\<close>

record section_point =
  sp_handle :: nat
  sp_number :: "int option"
  sp_description :: "string option"

text \<open>
  A value record of the NT11 field. \<open>fv_instance\<close> is \<open>v.instance.name\<close>, or \<open>None\<close>
  when \<open>v.instance\<close> is \<open>None\<close>, so that reading the name raises \<open>AttributeError\<close>. The
  two labels are attributes that can be missing, hold \<open>None\<close> or hold an integer.
\<close>

record field_value =
  fv_instance :: "string option"
  fv_position :: symconst
  fv_sectionPoint :: "section_point option"
  fv_nodeLabel :: "int field"
  fv_elementLabel :: "int field"
  fv_data :: pyval

record odb_frame =
  frameValue :: real
  fr_description :: "string option"
  fieldOutputs :: "(string \<times> field_value list) list"

record odb_step =
  st_domain :: symconst
  st_frames :: "odb_frame list"





subsection \<open>position_name and sp_to_dict\<close>

definition position_name :: "symconst \<Rightarrow> string" where
  "position_name pos =
     (if pos = NODAL then ''NODAL''
      else if pos = ELEMENT_NODAL then ''ELEMENT_NODAL''
      else if pos = INTEGRATION_POINT then ''INTEGRATION_POINT''
      else if pos = WHOLE_ELEMENT then ''WHOLE_ELEMENT''
      else str_const pos)"

record sp_dict =
  d_number :: "int option"
  d_description :: "string option"

fun field_value_or_none :: "'a field \<Rightarrow> 'a option" where
  "field_value_or_none Missing = None"
| "field_value_or_none IsNone = None"
| "field_value_or_none (Has x) = Some x"

fun sp_to_dict :: "section_point option \<Rightarrow> sp_dict option" where
  "sp_to_dict None = None"
| "sp_to_dict (Some sp) =
     Some \<lparr>d_number = sp_number sp, d_description = sp_description sp\<rparr>"

subsection \<open>json.dumps of a section point, keys sorted\<close>

text \<open>
  The text \<open>json.dumps(sp, sort_keys=True)\<close> returns for \<open>None\<close> and for a
  dictionary with the keys description and number: the default separators, integers in
  decimal, strings quoted and escaped as \<open>ensure_ascii\<close> does.
\<close>

definition backslash :: char where
  "backslash = CHR 0x5C"

definition dquote :: char where
  "dquote = CHR 0x22"

definition hex_digit :: "nat \<Rightarrow> char" where
  "hex_digit n = (if n < 10 then char_of (48 + n) else char_of (87 + n))"

definition json_escape_char :: "char \<Rightarrow> string" where
  "json_escape_char c =
     (if c = dquote then [backslash, dquote]
      else if c = backslash then [backslash, backslash]
      else if c = CHR 0x0A then [backslash, CHR ''n'']
      else if c = CHR 0x0D then [backslash, CHR ''r'']
      else if c = CHR 0x09 then [backslash, CHR ''t'']
      else if c = CHR 0x08 then [backslash, CHR ''b'']
      else if c = CHR 0x0C then [backslash, CHR ''f'']
      else if 32 \<le> (of_char c :: nat) \<and> (of_char c :: nat) \<le> 126 then [c]
      else [backslash, CHR ''u'', CHR ''0'', CHR ''0'',
            hex_digit (of_char c div 16), hex_digit (of_char c mod 16)])"

definition json_string :: "string \<Rightarrow> string" where
  "json_string s = dquote # concat (map json_escape_char s) @ [dquote]"

fun dec_nat :: "nat \<Rightarrow> string" where
  "dec_nat n = (if n < 10 then [char_of (48 + n)] else dec_nat (n div 10) @ [char_of (48 + n mod 10)])"

definition json_int :: "int \<Rightarrow> string" where
  "json_int i = (if i < 0 then CHR ''-'' # dec_nat (nat (- i)) else dec_nat (nat i))"

fun dumps_sp :: "sp_dict option \<Rightarrow> string" where
  "dumps_sp None = ''null''"
| "dumps_sp (Some d) =
     CHR ''{'' # json_string ''description'' @ '': ''
       @ (case d_description d of None \<Rightarrow> ''null'' | Some s \<Rightarrow> json_string s)
       @ '', '' @ json_string ''number'' @ '': ''
       @ (case d_number d of None \<Rightarrow> ''null'' | Some i \<Rightarrow> json_int i)
       @ ''}''"

declare dec_nat.simps [simp del]

subsection \<open>export_nt11: bucketing the values of one frame\<close>

text \<open>
  A Python dictionary is an association list with one entry per key, in the order of
  insertion. No statement below depends on that order.
\<close>

definition setdefault :: "('k \<times> 'v) list \<Rightarrow> 'k \<Rightarrow> 'v \<Rightarrow> ('k \<times> 'v) list" where
  "setdefault d k v = (case map_of d k of None \<Rightarrow> d @ [(k, v)] | Some old \<Rightarrow> d)"

definition dict_modify :: "('k \<times> 'v) list \<Rightarrow> 'k \<Rightarrow> ('v \<Rightarrow> 'v) \<Rightarrow> ('k \<times> 'v) list" where
  "dict_modify d k f = map (\<lambda>(k', v). if k' = k then (k', f v) else (k', v)) d"

record bucket =
  b_labels :: "int list"
  b_values :: "real list list"
  b_instance :: string
  b_position :: string
  b_section_point :: "sp_dict option"

type_synonym bucket_key = "string \<times> string \<times> string"

text \<open>The key of line 162, for a value that is attached to an instance.\<close>

definition bucket_key_of :: "string \<Rightarrow> field_value \<Rightarrow> bucket_key" where
  "bucket_key_of iname v =
     (iname, position_name (fv_position v), dumps_sp (sp_to_dict (fv_sectionPoint v)))"

text \<open>
  Line 165: \<open>getattr(v, "nodeLabel", getattr(v, "elementLabel", None))\<close>. A node label
  that is there wins, also when it holds \<open>None\<close>.
\<close>

definition value_label :: "field_value \<Rightarrow> int option" where
  "value_label v =
     (case fv_nodeLabel v of
        Missing \<Rightarrow> field_value_or_none (fv_elementLabel v)
      | IsNone \<Rightarrow> None
      | Has l \<Rightarrow> Some l)"

text \<open>
  Lines 167 to 176: \<open>float(val)\<close>; when that raises, a list or tuple of length one is
  unwrapped and its element passed to \<open>float\<close>, and anything else raises the exception
  again.
\<close>

definition value_float :: "pyval \<Rightarrow> py_error + real" where
  "value_float val =
     (case py_float val of
        Inr valf \<Rightarrow> Inr valf
      | Inl e \<Rightarrow>
          (case seq_items val of
             None \<Rightarrow> Inl e
           | Some xs \<Rightarrow> if length xs = 1 then py_float (xs ! 0) else Inl e))"

text \<open>The body of the loop of line 158, in the order of the source.\<close>

definition add_value :: "(bucket_key \<times> bucket) list \<Rightarrow> field_value \<Rightarrow> py_error + (bucket_key \<times> bucket) list" where
  "add_value buckets v =
     (case fv_instance v of
        None \<Rightarrow> Inl AttributeError
      | Some iname \<Rightarrow>
          let pos = position_name (fv_position v);
              sp = sp_to_dict (fv_sectionPoint v);
              key = (iname, pos, dumps_sp sp);
              buckets1 = setdefault buckets key
                \<lparr>b_labels = [], b_values = [], b_instance = iname, b_position = pos,
                 b_section_point = sp\<rparr>
          in case value_float (fv_data v) of
               Inl e \<Rightarrow> Inl e
             | Inr valf \<Rightarrow>
                 (case py_int (value_label v) of
                    Inl e \<Rightarrow> Inl e
                  | Inr lbl \<Rightarrow>
                      Inr (dict_modify buckets1 key
                        (\<lambda>b. b\<lparr>b_labels := b_labels b @ [lbl],
                                b_values := b_values b @ [[valf]]\<rparr>))))"

fun bucket_values :: "(bucket_key \<times> bucket) list \<Rightarrow> field_value list \<Rightarrow> py_error + (bucket_key \<times> bucket) list" where
  "bucket_values buckets [] = Inr buckets"
| "bucket_values buckets (v # vs) =
     (case add_value buckets v of
        Inl e \<Rightarrow> Inl e
      | Inr buckets' \<Rightarrow> bucket_values buckets' vs)"

subsection \<open>export_nt11: the lines of the stream\<close>

record stream_line =
  l_step :: string
  l_frame_index :: nat
  l_frame_value :: real
  l_instance :: string
  l_position :: string
  l_section_point :: "sp_dict option"
  l_labels :: "int list"
  l_values :: "real list list"

definition bucket_line :: "string \<Rightarrow> nat \<Rightarrow> odb_frame \<Rightarrow> bucket \<Rightarrow> stream_line" where
  "bucket_line sname fidx fr b =
     \<lparr>l_step = sname, l_frame_index = fidx, l_frame_value = frameValue fr,
      l_instance = b_instance b, l_position = b_position b,
      l_section_point = b_section_point b, l_labels = b_labels b, l_values = b_values b\<rparr>"

text \<open>
  Lines 148 to 192 for one frame: nothing when the frame has no NT11 field or the
  field has no values, else one line per bucket, written after every value of the
  frame is in its bucket.
\<close>

definition export_frame :: "string \<Rightarrow> nat \<Rightarrow> odb_frame \<Rightarrow> py_error + stream_line list" where
  "export_frame sname fidx fr =
     (case map_of (fieldOutputs fr) ''NT11'' of
        None \<Rightarrow> Inr []
      | Some vals \<Rightarrow>
          if vals = [] then Inr []
          else (case bucket_values [] vals of
                  Inl e \<Rightarrow> Inl e
                | Inr buckets \<Rightarrow> Inr (map (\<lambda>(key, b). bucket_line sname fidx fr b) buckets)))"

text \<open>
  The frames of one step from index \<open>fidx\<close> on. The result is the exception that ended
  the loop, if any, and the lines written until then.
\<close>

fun export_frames :: "string \<Rightarrow> nat \<Rightarrow> odb_frame list \<Rightarrow> py_error option \<times> stream_line list" where
  "export_frames sname fidx [] = (None, [])"
| "export_frames sname fidx (fr # frs) =
     (case export_frame sname fidx fr of
        Inl e \<Rightarrow> (Some e, [])
      | Inr ls \<Rightarrow>
          (case export_frames sname (Suc fidx) frs of (r, ls') \<Rightarrow> (r, ls @ ls')))"

text \<open>\<open>step_filter and sname not in step_filter\<close>: the step is skipped.\<close>

definition step_skipped :: "string list option \<Rightarrow> string \<Rightarrow> bool" where
  "step_skipped step_filter sname =
     (case step_filter of
        None \<Rightarrow> False
      | Some names \<Rightarrow> names \<noteq> [] \<and> sname \<notin> set names)"

fun export_nt11 :: "string list option \<Rightarrow> (string \<times> odb_step) list \<Rightarrow> py_error option \<times> stream_line list" where
  "export_nt11 step_filter [] = (None, [])"
| "export_nt11 step_filter ((sname, step) # steps) =
     (if step_skipped step_filter sname then export_nt11 step_filter steps
      else (case export_frames sname 0 (st_frames step) of
              (Some e, ls) \<Rightarrow> (Some e, ls)
            | (None, ls) \<Rightarrow>
                (case export_nt11 step_filter steps of (r, ls') \<Rightarrow> (r, ls @ ls'))))"

subsection \<open>Reading the text of a section point back\<close>

text \<open>
  Functions of the proofs only: they read one escaped character and a decimal number
  back, which shows that \<open>dumps_sp\<close> never gives one text for two section points.
\<close>

definition hex_val :: "char \<Rightarrow> nat" where
  "hex_val c = (if (of_char c :: nat) < 58 then of_char c - 48 else of_char c - 87)"

fun unescape_hd :: "string \<Rightarrow> (char \<times> string) option" where
  "unescape_hd [] = None"
| "unescape_hd (x # xs) =
     (if x \<noteq> backslash then Some (x, xs)
      else (case xs of
              [] \<Rightarrow> None
            | y # ys \<Rightarrow>
                if y = dquote then Some (dquote, ys)
                else if y = backslash then Some (backslash, ys)
                else if y = CHR ''n'' then Some (CHR 0x0A, ys)
                else if y = CHR ''r'' then Some (CHR 0x0D, ys)
                else if y = CHR ''t'' then Some (CHR 0x09, ys)
                else if y = CHR ''b'' then Some (CHR 0x08, ys)
                else if y = CHR ''f'' then Some (CHR 0x0C, ys)
                else (case ys of
                        a # b # h # l # zs \<Rightarrow> Some (char_of (16 * hex_val h + hex_val l), zs)
                      | _ \<Rightarrow> None)))"

definition digit_val :: "char \<Rightarrow> nat" where
  "digit_val c = of_char c - 48"

definition undec :: "string \<Rightarrow> nat" where
  "undec s = foldl (\<lambda>acc c. 10 * acc + digit_val c) 0 s"

definition enc_desc :: "string option \<Rightarrow> string" where
  "enc_desc d = (case d of None \<Rightarrow> ''null'' | Some s \<Rightarrow> json_string s)"

definition enc_num :: "int option \<Rightarrow> string" where
  "enc_num n = (case n of None \<Rightarrow> ''null'' | Some i \<Rightarrow> json_int i)"

subsection \<open>What a value adds to its bucket\<close>

text \<open>
  The key under which a value is filed (none when it has no instance), the pair of
  label and one-element value it adds (or the exception it raises), and the
  well-formedness of a bucket under its key. A value is in a line of the stream when
  the line carries the key of the value. Two section points are the same when both are
  absent or both have the same number and description, whatever their handles.
\<close>

definition value_key :: "field_value \<Rightarrow> bucket_key option" where
  "value_key v = map_option (\<lambda>iname. bucket_key_of iname v) (fv_instance v)"

definition value_entry :: "field_value \<Rightarrow> py_error + (int \<times> real list)" where
  "value_entry v =
     (case value_float (fv_data v) of
        Inl e \<Rightarrow> Inl e
      | Inr valf \<Rightarrow>
          (case py_int (value_label v) of
             Inl e \<Rightarrow> Inl e
           | Inr lbl \<Rightarrow> Inr (lbl, [valf])))"

definition bucket_ok :: "bucket_key \<Rightarrow> bucket \<Rightarrow> bool" where
  "bucket_ok k b =
     (length (b_labels b) = length (b_values b) \<and> b_instance b = fst k
      \<and> b_position b = fst (snd k) \<and> dumps_sp (b_section_point b) = snd (snd k))"

definition entries_at :: "(bucket_key \<times> bucket) list \<Rightarrow> bucket_key \<Rightarrow> (int \<times> real list) list" where
  "entries_at d k = (case map_of d k of None \<Rightarrow> [] | Some b \<Rightarrow> zip (b_labels b) (b_values b))"

definition line_key :: "stream_line \<Rightarrow> bucket_key" where
  "line_key l = (l_instance l, l_position l, dumps_sp (l_section_point l))"

definition in_line :: "field_value \<Rightarrow> stream_line \<Rightarrow> bool" where
  "in_line v l = (value_key v = Some (line_key l))"

fun same_section_point :: "section_point option \<Rightarrow> section_point option \<Rightarrow> bool" where
  "same_section_point None None = True"
| "same_section_point (Some x) (Some y) =
     (sp_number x = sp_number y \<and> sp_description x = sp_description y)"
| "same_section_point None (Some y) = False"
| "same_section_point (Some x) None = False"

definition source_slot :: "field_value \<Rightarrow> symconst \<times> sp_dict option \<times> int option" where
  "source_slot v = (fv_position v, sp_to_dict (fv_sectionPoint v), value_label v)"

definition buckets_ok :: "(bucket_key \<times> bucket) list \<Rightarrow> bool" where
  "buckets_ok d = (distinct (map fst d) \<and> list_all (\<lambda>(k, b). bucket_ok k b) d)"

subsection \<open>export_mesh and export_steps\<close>

record mesh_element =
  me_label :: int
  me_type :: string
  me_connectivity :: "int list"











subsection \<open>main of the exporter\<close>





section \<open>The importer (import_odb_nt11_2019.py)\<close>

subsection \<open>The three documents as the importer reads them\<close>

text \<open>
  A key read with \<open>d[key]\<close> is a field; a key read with \<open>d.get(key, default)\<close> is an
  optional field, \<open>None\<close> when the key is missing. The number and the description of a
  section point can also hold JSON \<open>null\<close>.
\<close>

record inst_rec =
  ir_nodes :: "(int \<times> real \<times> real \<times> real) list option"
  ir_elements :: "mesh_element list option"

record frame_json =
  fj_index :: int
  fj_value :: "real option"
  fj_description :: "string option"

record step_json =
  sj_name :: string
  sj_domain :: "string option"
  sj_frames :: "frame_json list option"

record sp_json =
  pj_number :: "int field"
  pj_description :: "string field"

record nt11_json =
  r_step :: string
  r_frame_index :: int
  r_frame_value :: real
  r_instance :: string
  r_position :: string
  r_section_point :: "sp_json option"
  r_labels :: "int list"
  r_data :: "real list list"

subsection \<open>The calls made on the target store\<close>

text \<open>
  Every object the store creates has a handle, the number of calls made before it was
  created. A part is always created as a three-dimensional deformable body, a field
  output always as the scalar NT11.
\<close>

datatype event =
    EvOdb string
  | EvPart nat string
  | EvAddNodes nat "(int \<times> real \<times> real \<times> real) list"
  | EvAddElements nat string "int list list"
  | EvInstance string nat
  | EvSave
  | EvClose
  | EvOpenOdb string
  | EvSectionCategory string
  | EvSectionPoint nat int string
  | EvStep nat string symconst real
  | EvFrame nat nat int real string
  | EvFieldOutput nat nat
  | EvAddData nat symconst string "int list" "real list list" "nat option"

fun is_geometry_write :: "event \<Rightarrow> bool" where
  "is_geometry_write (EvPart p n) = True"
| "is_geometry_write (EvAddNodes p d) = True"
| "is_geometry_write (EvAddElements p t d) = True"
| "is_geometry_write (EvInstance n p) = True"
| "is_geometry_write e = False"

fun is_results_write :: "event \<Rightarrow> bool" where
  "is_results_write (EvSectionCategory n) = True"
| "is_results_write (EvSectionPoint h n d) = True"
| "is_results_write (EvStep h n d t) = True"
| "is_results_write (EvFrame h s i v d) = True"
| "is_results_write (EvFieldOutput h f) = True"
| "is_results_write (EvAddData f p i l d s) = True"
| "is_results_write e = False"

subsection \<open>pos_from_name\<close>

text \<open>\<open>to_str\<close> is the identity on a string.\<close>

definition pos_from_name :: "string \<Rightarrow> symconst" where
  "pos_from_name name =
     (if name = ''NODAL'' then NODAL
      else if name = ''ELEMENT_NODAL'' then ELEMENT_NODAL
      else if name = ''INTEGRATION_POINT'' then INTEGRATION_POINT
      else if name = ''WHOLE_ELEMENT'' then WHOLE_ELEMENT
      else NODAL)"

subsection \<open>Stage 1: geometry\<close>

text \<open>Lines 121 to 130: the elements of an instance grouped by their type.\<close>

definition group_add :: "(string \<times> int list list) list \<Rightarrow> mesh_element \<Rightarrow> (string \<times> int list list) list" where
  "group_add groups e =
     dict_modify (setdefault groups (me_type e) []) (me_type e)
       (\<lambda>l. l @ [me_label e # me_connectivity e])"

definition build_instance :: "event list \<Rightarrow> string \<times> inst_rec \<Rightarrow> event list" where
  "build_instance tr inst =
     (case inst of (iname, inst_rec) \<Rightarrow>
        let p = length tr;
            tr1 = tr @ [EvPart p (''PART_FROM_'' @ iname)];
            nodes = (case ir_nodes inst_rec of None \<Rightarrow> [] | Some ns \<Rightarrow> ns);
            tr2 = (if nodes \<noteq> [] then tr1 @ [EvAddNodes p nodes] else tr1);
            elements = (case ir_elements inst_rec of None \<Rightarrow> [] | Some es \<Rightarrow> es);
            tr3 = (if elements \<noteq> []
                   then tr2 @ map (\<lambda>(ety, eData). EvAddElements p ety eData)
                                  (foldl group_add [] elements)
                   else tr2)
        in tr3 @ [EvInstance iname p])"

definition geometry_stage :: "string \<Rightarrow> (string \<times> inst_rec) list \<Rightarrow> event list" where
  "geometry_stage out_odb mesh = foldl build_instance [EvOdb out_odb] mesh"

subsection \<open>Stage 2: results\<close>

record imp_state =
  im_trace :: "event list"
  inst_map :: "string \<rightharpoonup> string"
  sp_pool :: "int \<times> string \<rightharpoonup> nat"
  step_objs :: "string \<rightharpoonup> nat"
  frame_objs :: "string \<times> int \<rightharpoonup> nat"
  nt11_cache :: "string \<times> int \<rightharpoonup> nat"

text \<open>The instances of the store that is opened again: those created in stage 1.\<close>

fun store_instances :: "event list \<Rightarrow> string list" where
  "store_instances [] = []"
| "store_instances (EvInstance n p # es) = n # store_instances es"
| "store_instances (e # es) = store_instances es"

text \<open>Lines 137 to 153: save, close, open again, the instance map, the section category.\<close>

definition reopen :: "string \<Rightarrow> event list \<Rightarrow> imp_state" where
  "reopen out_odb tr =
     \<lparr>im_trace = tr @ [EvSave, EvClose, EvOpenOdb out_odb, EvSectionCategory ''GEN_SEC_CAT''],
      inst_map = map_of (map (\<lambda>n. (n, n)) (store_instances tr)),
      sp_pool = Map.empty, step_objs = Map.empty, frame_objs = Map.empty,
      nt11_cache = Map.empty\<rparr>"

text \<open>
  Lines 158 to 160: the key of a section point in the pool. \<open>to_str\<close> of a description
  that is \<open>null\<close> is the text of \<open>None\<close>.
\<close>

definition sp_key :: "sp_json \<Rightarrow> int \<times> string" where
  "sp_key sp_dict =
     ((case field_value_or_none (pj_number sp_dict) of None \<Rightarrow> 1 | Some num \<Rightarrow> num),
      (case pj_description sp_dict of Missing \<Rightarrow> [] | IsNone \<Rightarrow> ''None'' | Has desc \<Rightarrow> desc))"

definition get_or_make_sp :: "imp_state \<Rightarrow> sp_json option \<Rightarrow> nat option \<times> imp_state" where
  "get_or_make_sp st sp =
     (case sp of
        None \<Rightarrow> (None, st)
      | Some sp_dict \<Rightarrow>
          (case sp_pool st (sp_key sp_dict) of
             Some sp_obj \<Rightarrow> (Some sp_obj, st)
           | None \<Rightarrow>
               let sp_obj = length (im_trace st)
               in (Some sp_obj,
                   st\<lparr>im_trace := im_trace st
                          @ [EvSectionPoint sp_obj (fst (sp_key sp_dict)) (snd (sp_key sp_dict))],
                      sp_pool := (sp_pool st)(sp_key sp_dict \<mapsto> sp_obj)\<rparr>)))"

text \<open>Lines 177 to 182: the time period of a step before \<open>max\<close>.\<close>

definition last_frame_value :: "step_json \<Rightarrow> real" where
  "last_frame_value s =
     (case sj_frames s of
        None \<Rightarrow> 0
      | Some frs \<Rightarrow>
          if frs = [] then 0
          else (case fj_value (last frs) of None \<Rightarrow> 0 | Some v \<Rightarrow> v))"

definition import_frame :: "string \<Rightarrow> nat \<Rightarrow> imp_state \<Rightarrow> frame_json \<Rightarrow> imp_state" where
  "import_frame sname stp st fr =
     (let fobj = length (im_trace st)
      in st\<lparr>im_trace := im_trace st
                @ [EvFrame fobj stp (fj_index fr)
                     (case fj_value fr of None \<Rightarrow> 0 | Some v \<Rightarrow> v)
                     (case fj_description fr of None \<Rightarrow> [] | Some d \<Rightarrow> d)],
             frame_objs := (frame_objs st)((sname, fj_index fr) \<mapsto> fobj)\<rparr>)"

definition import_step :: "imp_state \<Rightarrow> step_json \<Rightarrow> imp_state" where
  "import_step st s =
     (let sname = sj_name s;
          domain = TIME;
          stp = length (im_trace st);
          st1 = st\<lparr>im_trace := im_trace st
                     @ [EvStep stp sname domain (max (last_frame_value s) 0)],
                   step_objs := (step_objs st)(sname \<mapsto> stp)\<rparr>
      in foldl (import_frame sname stp) st1
           (case sj_frames s of None \<Rightarrow> [] | Some frs \<Rightarrow> frs))"

text \<open>Lines 211 to 216: the frame of a record, created when the catalog did not list it.\<close>

definition get_or_make_frame :: "imp_state \<Rightarrow> nt11_json \<Rightarrow> py_error + nat \<times> imp_state" where
  "get_or_make_frame st r =
     (let fkey = (r_step r, r_frame_index r)
      in case frame_objs st fkey of
           Some fobj \<Rightarrow> Inr (fobj, st)
         | None \<Rightarrow>
             (case step_objs st (r_step r) of
                None \<Rightarrow> Inl KeyError
              | Some stp \<Rightarrow>
                  let fobj = length (im_trace st)
                  in Inr (fobj,
                       st\<lparr>im_trace := im_trace st
                              @ [EvFrame fobj stp (r_frame_index r) (r_frame_value r) []],
                          frame_objs := (frame_objs st)(fkey \<mapsto> fobj)\<rparr>)))"

text \<open>Lines 219 to 225: the field output of the frame.\<close>

definition get_or_make_fo :: "imp_state \<Rightarrow> string \<times> int \<Rightarrow> nat \<Rightarrow> nat \<times> imp_state" where
  "get_or_make_fo st fkey fobj =
     (case nt11_cache st fkey of
        Some fo \<Rightarrow> (fo, st)
      | None \<Rightarrow>
          let fo = length (im_trace st)
          in (fo, st\<lparr>im_trace := im_trace st @ [EvFieldOutput fo fobj],
                     nt11_cache := (nt11_cache st)(fkey \<mapsto> fo)\<rparr>))"

text \<open>
  The body of the loop of line 199. The result is the exception raised, if any, and
  the state reached: the frame, the field output and the section point are created
  before the instance is looked up.
\<close>

definition write_record :: "imp_state \<Rightarrow> nt11_json \<Rightarrow> py_error option \<times> imp_state" where
  "write_record st r =
     (let pos = pos_from_name (r_position r);
          fkey = (r_step r, r_frame_index r)
      in case get_or_make_frame st r of
           Inl e \<Rightarrow> (Some e, st)
         | Inr (fobj, st1) \<Rightarrow>
             (case get_or_make_fo st1 fkey fobj of
                (fo, st2) \<Rightarrow>
                  (case get_or_make_sp st2 (r_section_point r) of
                     (sp_obj, st3) \<Rightarrow>
                       (case inst_map st3 (r_instance r) of
                          None \<Rightarrow> (Some RuntimeError, st3)
                        | Some inst \<Rightarrow>
                            if sp_obj \<noteq> None \<and> pos = INTEGRATION_POINT
                            then (None, st3\<lparr>im_trace := im_trace st3
                                    @ [EvAddData fo pos inst (r_labels r) (r_data r) sp_obj]\<rparr>)
                            else (None, st3\<lparr>im_trace := im_trace st3
                                    @ [EvAddData fo pos inst (r_labels r) (r_data r) None]\<rparr>)))))"

fun write_records :: "imp_state \<Rightarrow> nt11_json list \<Rightarrow> py_error option \<times> imp_state" where
  "write_records st [] = (None, st)"
| "write_records st (r # rs) =
     (case write_record st r of
        (Some e, st') \<Rightarrow> (Some e, st')
      | (None, st') \<Rightarrow> write_records st' rs)"

subsection \<open>main of the importer\<close>

definition import_main :: "string \<Rightarrow> (string \<times> inst_rec) list \<Rightarrow> step_json list \<Rightarrow> nt11_json list \<Rightarrow> py_error option \<times> imp_state" where
  "import_main out_odb mesh steps recs =
     (let st0 = reopen out_odb (geometry_stage out_odb mesh);
          st1 = foldl import_step st0 steps
      in case write_records st1 recs of
           (Some e, st2) \<Rightarrow> (Some e, st2)
         | (None, st2) \<Rightarrow> (None, st2\<lparr>im_trace := im_trace st2 @ [EvSave, EvClose]\<rparr>))"



text \<open>
  Every handle the pool of section points holds is the handle of a section point that
  was created with the number and the description of its key.
\<close>

definition pool_created :: "imp_state \<Rightarrow> bool" where
  "pool_created st =
     (\<forall>num desc h. sp_pool st (num, desc) = Some h
        \<longrightarrow> EvSectionPoint h num desc \<in> set (im_trace st))"

subsection \<open>Kinds of calls\<close>

text \<open>The call that opens the store again, and the call that writes labelled data.\<close>

fun is_open_odb :: "event \<Rightarrow> bool" where
  "is_open_odb (EvOpenOdb p) = True"
| "is_open_odb e = False"

fun is_add_data :: "event \<Rightarrow> bool" where
  "is_add_data (EvAddData f p i l d s) = True"
| "is_add_data e = False"

section \<open>A small store, used to run the definitions\<close>

definition sample_v1 :: field_value where
  "sample_v1 = \<lparr>fv_instance = Some ''PART-1-1'', fv_position = NODAL, fv_sectionPoint = None,
     fv_nodeLabel = Has 1, fv_elementLabel = Missing, fv_data = PyFloat 20\<rparr>"

definition sample_v2 :: field_value where
  "sample_v2 = \<lparr>fv_instance = Some ''PART-1-1'', fv_position = NODAL, fv_sectionPoint = None,
     fv_nodeLabel = Has 2, fv_elementLabel = Missing, fv_data = PyTuple [PyFloat 21]\<rparr>"

definition sample_v3 :: field_value where
  "sample_v3 = \<lparr>fv_instance = Some ''PART-1-1'', fv_position = INTEGRATION_POINT,
     fv_sectionPoint = Some \<lparr>sp_handle = 7, sp_number = Some 5, sp_description = Some ''Top''\<rparr>,
     fv_nodeLabel = Missing, fv_elementLabel = Has 1, fv_data = PyFloat 30\<rparr>"

definition sample_v4 :: field_value where
  "sample_v4 = \<lparr>fv_instance = Some ''PART-1-1'', fv_position = INTEGRATION_POINT,
     fv_sectionPoint = Some \<lparr>sp_handle = 8, sp_number = Some 5, sp_description = Some ''Top''\<rparr>,
     fv_nodeLabel = Missing, fv_elementLabel = Has 2, fv_data = PyList [PyFloat 31]\<rparr>"

definition sample_v5 :: field_value where
  "sample_v5 = \<lparr>fv_instance = Some ''PART-1-1'', fv_position = INTEGRATION_POINT,
     fv_sectionPoint = None,
     fv_nodeLabel = Missing, fv_elementLabel = Has 1, fv_data = PyFloat 32\<rparr>"

definition sample_bad_value :: field_value where
  "sample_bad_value = \<lparr>fv_instance = Some ''PART-1-1'', fv_position = NODAL, fv_sectionPoint = None,
     fv_nodeLabel = Has 3, fv_elementLabel = Missing, fv_data = PyTuple [PyFloat 1, PyFloat 2]\<rparr>"

definition sample_values :: "field_value list" where
  "sample_values = [sample_v1, sample_v2, sample_v3, sample_v4, sample_v5]"

definition sample_frame :: odb_frame where
  "sample_frame = \<lparr>frameValue = 1, fr_description = Some ''Increment 1'',
     fieldOutputs = [(''NT11'', sample_values)]\<rparr>"

definition sample_bad_frame :: odb_frame where
  "sample_bad_frame = \<lparr>frameValue = 2, fr_description = None,
     fieldOutputs = [(''NT11'', [sample_v1, sample_bad_value])]\<rparr>"

definition sample_step :: odb_step where
  "sample_step = \<lparr>st_domain = TIME, st_frames = [sample_frame]\<rparr>"

definition sample_bad_step :: odb_step where
  "sample_bad_step = \<lparr>st_domain = TIME, st_frames = [sample_frame, sample_bad_frame]\<rparr>"



definition sample_mesh :: "(string \<times> inst_rec) list" where
  "sample_mesh =
     [(''PART-1-1'',
       \<lparr>ir_nodes = Some [(1, 0, 0, 0), (2, 1, 0, 0)],
        ir_elements = Some [\<lparr>me_label = 1, me_type = ''DC1D2'', me_connectivity = [1, 2]\<rparr>]\<rparr>)]"

definition sample_steps :: "step_json list" where
  "sample_steps =
     [\<lparr>sj_name = ''Thermal_Step'', sj_domain = Some ''TIME'',
       sj_frames = Some [\<lparr>fj_index = 0, fj_value = Some 1, fj_description = Some ''Increment 1''\<rparr>]\<rparr>]"

definition sample_rec_nodal :: nt11_json where
  "sample_rec_nodal =
     \<lparr>r_step = ''Thermal_Step'', r_frame_index = 0, r_frame_value = 1,
      r_instance = ''PART-1-1'', r_position = ''NODAL'', r_section_point = None,
      r_labels = [1, 2], r_data = [[20], [21]]\<rparr>"

definition sample_rec_ip :: nt11_json where
  "sample_rec_ip =
     \<lparr>r_step = ''Thermal_Step'', r_frame_index = 0, r_frame_value = 1,
      r_instance = ''PART-1-1'', r_position = ''INTEGRATION_POINT'',
      r_section_point = Some \<lparr>pj_number = Has 5, pj_description = Has ''Top''\<rparr>,
      r_labels = [1, 2], r_data = [[30], [31]]\<rparr>"

definition sample_rec_late :: nt11_json where
  "sample_rec_late = sample_rec_nodal\<lparr>r_frame_index := 1, r_frame_value := 2\<rparr>"

definition sample_rec_no_step :: nt11_json where
  "sample_rec_no_step = sample_rec_nodal\<lparr>r_step := ''Other_Step''\<rparr>"

definition sample_rec_no_instance :: nt11_json where
  "sample_rec_no_instance = sample_rec_nodal\<lparr>r_instance := ''PART-2-1''\<rparr>"

definition sample_state :: imp_state where
  "sample_state =
     foldl import_step (reopen ''out.odb'' (geometry_stage ''out.odb'' sample_mesh)) sample_steps"

definition sample_sp_null :: sp_json where
  "sample_sp_null = \<lparr>pj_number = IsNone, pj_description = Has ''Top''\<rparr>"

definition sample_sp_one :: sp_json where
  "sample_sp_one = \<lparr>pj_number = Has 1, pj_description = Has ''Top''\<rparr>"

definition sample_lines :: "stream_line list" where
  "sample_lines =
     [\<lparr>l_step = ''Thermal_Step'', l_frame_index = 0, l_frame_value = 1,
       l_instance = ''PART-1-1'', l_position = ''NODAL'', l_section_point = None,
       l_labels = [1, 2], l_values = [[20], [21]]\<rparr>,
      \<lparr>l_step = ''Thermal_Step'', l_frame_index = 0, l_frame_value = 1,
       l_instance = ''PART-1-1'', l_position = ''INTEGRATION_POINT'',
       l_section_point = Some \<lparr>d_number = Some 5, d_description = Some ''Top''\<rparr>,
       l_labels = [1, 2], l_values = [[30], [31]]\<rparr>,
      \<lparr>l_step = ''Thermal_Step'', l_frame_index = 0, l_frame_value = 1,
       l_instance = ''PART-1-1'', l_position = ''INTEGRATION_POINT'', l_section_point = None,
       l_labels = [1], l_values = [[32]]\<rparr>]"

section \<open>Properties of the exporter\<close>

lemma position_name_str: "position_name pos = str_const pos"
  by (cases pos) (simp add: position_name_def NODAL_def ELEMENT_NODAL_def INTEGRATION_POINT_def WHOLE_ELEMENT_def)

subsection \<open>The payload of a value\<close>

lemma value_float_scalar: "py_float val = Inr r \<Longrightarrow> value_float val = Inr r"
  by (simp add: value_float_def)

lemma value_float_unwrap:
  "value_float (PyList [x]) = py_float x" "value_float (PyTuple [x]) = py_float x"
  by (simp_all add: value_float_def)

lemma value_float_other:
  assumes "py_float val = Inl e" and "\<forall>x. val \<noteq> PyList [x] \<and> val \<noteq> PyTuple [x]"
  shows "value_float val = Inl e"
proof (cases val)
  case (PyList xs)
  with assms(2) have "length xs \<noteq> 1" by (cases xs) auto
  with PyList assms(1) show ?thesis by (simp add: value_float_def)
next
  case (PyTuple xs)
  with assms(2) have "length xs \<noteq> 1" by (cases xs) auto
  with PyTuple assms(1) show ?thesis by (simp add: value_float_def)
qed (use assms(1) in \<open>simp_all add: value_float_def\<close>)

lemma map_of_dict_modify: "map_of (dict_modify d k f) k' = (if k' = k then map_option f (map_of d k') else map_of d k')"
  by (induction d) (auto simp: dict_modify_def)

lemma map_of_setdefault: "map_of (setdefault d k v) k' = (if k' = k \<and> map_of d k = None then Some v else map_of d k')"
  by (auto simp: setdefault_def map_add_def split: option.splits)

lemma add_value_stores:
  assumes "add_value buckets v = Inr buckets'"
  shows "\<exists>iname valf b. fv_instance v = Some iname \<and> value_float (fv_data v) = Inr valf
           \<and> map_of buckets' (bucket_key_of iname v) = Some b
           \<and> b_values b \<noteq> [] \<and> last (b_values b) = [valf]"
  using assms
  by (auto simp: add_value_def Let_def bucket_key_of_def map_of_dict_modify map_of_setdefault
      split: option.splits sum.splits)

lemma add_value_abort:
  assumes "value_float (fv_data v) = Inl e"
  shows "\<exists>e'. add_value buckets v = Inl e'"
  using assms by (simp add: add_value_def Let_def split: option.splits)

lemma bucket_values_abort:
  assumes "v \<in> set vs" and "value_float (fv_data v) = Inl e"
  shows "\<exists>e'. bucket_values buckets vs = Inl e'"
  using assms(1)
proof (induction vs arbitrary: buckets)
  case Nil
  then show ?case by simp
next
  case (Cons w ws)
  show ?case
  proof (cases "add_value buckets w")
    case (Inl e')
    then show ?thesis by simp
  next
    case (Inr buckets')
    with add_value_abort [OF assms(2), of buckets] have "w \<noteq> v" by auto
    with Cons.prems have "v \<in> set ws" by simp
    from Cons.IH [OF this] Inr show ?thesis by simp
  qed
qed

lemma export_frame_abort:
  assumes "map_of (fieldOutputs fr) ''NT11'' = Some vs" and "v \<in> set vs"
    and "value_float (fv_data v) = Inl e"
  shows "\<exists>e'. export_frame sname fidx fr = Inl e'"
proof -
  from assms(2) have "vs \<noteq> []" by auto
  moreover from bucket_values_abort [OF assms(2,3)]
  obtain e' where "bucket_values [] vs = Inl e'" by blast
  ultimately show ?thesis using assms(1) by (simp add: export_frame_def)
qed

lemma export_frames_abort:
  assumes "fr \<in> set frs" and "\<forall>i. \<exists>e. export_frame sname i fr = Inl e"
  shows "\<exists>e'. fst (export_frames sname fidx frs) = Some e'"
  using assms(1)
proof (induction frs arbitrary: fidx)
  case Nil
  then show ?case by simp
next
  case (Cons g gs)
  show ?case
  proof (cases "export_frame sname fidx g")
    case (Inl e')
    then show ?thesis by simp
  next
    case (Inr ls)
    from assms(2) obtain e where "export_frame sname fidx fr = Inl e" by blast
    with Inr have "g \<noteq> fr" by auto
    with Cons.prems have "fr \<in> set gs" by simp
    from Cons.IH [OF this, of "Suc fidx"] Inr show ?thesis
      by (auto split: prod.splits)
  qed
qed

lemma export_nt11_abort:
  assumes "(sname, step) \<in> set steps" and "\<not> step_skipped step_filter sname"
    and "\<exists>e. fst (export_frames sname 0 (st_frames step)) = Some e"
  shows "\<exists>e'. fst (export_nt11 step_filter steps) = Some e'"
  using assms(1)
proof (induction steps)
  case Nil
  then show ?case by simp
next
  case (Cons p ps)
  obtain n s where p: "p = (n, s)" by (cases p)
  show ?case
  proof (cases "p = (sname, step)")
    case True
    with assms(2,3) p show ?thesis by (auto split: prod.splits option.splits)
  next
    case False
    with Cons.prems have "(sname, step) \<in> set ps" by simp
    from Cons.IH [OF this] p show ?thesis
      by (auto split: prod.splits option.splits)
  qed
qed

text \<open>
  Claim C3. For every payload \<open>val\<close> of a field value met during the export: when
  \<open>float(val)\<close> succeeds, that float is the stored value; when \<open>val\<close> is a list or a
  tuple of one element \<open>x\<close>, it is unwrapped and the stored value is \<open>float(x)\<close>; for any
  other shape the exception of \<open>float(val)\<close> is raised again. A value that is added to
  its bucket is stored there as the one-element list of its float, and a payload that
  cannot be converted, in a frame of a step that is exported, makes the frame emit no
  line and ends \<open>export_nt11\<close> with an exception: the value is not dropped.
\<close>

theorem export_payload_shapes:
  "(py_float val = Inr r \<longrightarrow> value_float val = Inr r)
   \<and> value_float (PyList [x]) = py_float x
   \<and> value_float (PyTuple [x]) = py_float x
   \<and> (py_float val = Inl e \<and> (\<forall>y. val \<noteq> PyList [y] \<and> val \<noteq> PyTuple [y])
        \<longrightarrow> value_float val = Inl e)
   \<and> (add_value buckets v = Inr buckets'
        \<longrightarrow> (\<exists>iname valf b. fv_instance v = Some iname \<and> value_float (fv_data v) = Inr valf
               \<and> map_of buckets' (bucket_key_of iname v) = Some b
               \<and> b_values b \<noteq> [] \<and> last (b_values b) = [valf]))
   \<and> ((sname, step) \<in> set steps \<and> \<not> step_skipped step_filter sname
        \<and> fr \<in> set (st_frames step) \<and> map_of (fieldOutputs fr) ''NT11'' = Some vs
        \<and> w \<in> set vs \<and> value_float (fv_data w) = Inl e'
        \<longrightarrow> (\<forall>fidx. \<exists>e''. export_frame sname fidx fr = Inl e'')
            \<and> (\<exists>e''. fst (export_nt11 step_filter steps) = Some e''))"
proof -
  have abort: "(\<forall>fidx. \<exists>e''. export_frame sname fidx fr = Inl e'')
            \<and> (\<exists>e''. fst (export_nt11 step_filter steps) = Some e'')"
    if h: "(sname, step) \<in> set steps" "\<not> step_skipped step_filter sname"
      "fr \<in> set (st_frames step)" "map_of (fieldOutputs fr) ''NT11'' = Some vs"
      "w \<in> set vs" "value_float (fv_data w) = Inl e'"
  proof -
    have fr: "\<forall>fidx. \<exists>e''. export_frame sname fidx fr = Inl e''"
      using export_frame_abort [OF h(4,5,6)] by blast
    from export_frames_abort [OF h(3) fr]
    have "\<exists>e''. fst (export_frames sname 0 (st_frames step)) = Some e''" .
    from export_nt11_abort [OF h(1,2) this] fr show ?thesis by blast
  qed
  show ?thesis
    using value_float_scalar value_float_unwrap value_float_other add_value_stores abort
    by blast
qed

theorem export_payload_shapes_witness:
  "value_float (PyFloat 20) = Inr 20
   \<and> value_float (PyTuple [PyFloat 21]) = Inr 21
   \<and> value_float (PyList [PyFloat 31]) = Inr 31
   \<and> value_float (PyTuple [PyFloat 1, PyFloat 2]) = Inl TypeError
   \<and> (\<exists>b. map_of (projr (add_value [] sample_v2)) (bucket_key_of ''PART-1-1'' sample_v2) = Some b
          \<and> last (b_values b) = [21])
   \<and> (\<exists>e. export_frame ''Thermal_Step'' 1 sample_bad_frame = Inl e)
   \<and> (\<exists>e. fst (export_nt11 None [(''Thermal_Step'', sample_bad_step)]) = Some e)"
proof -
  have ok: "add_value [] sample_v2 = Inr (projr (add_value [] sample_v2))"
    by (simp add: add_value_def sample_v2_def Let_def value_float_def value_label_def
        setdefault_def dict_modify_def)
  have bad: "(''Thermal_Step'', sample_bad_step) \<in> set [(''Thermal_Step'', sample_bad_step)]
      \<and> \<not> step_skipped None ''Thermal_Step''
      \<and> sample_bad_frame \<in> set (st_frames sample_bad_step)
      \<and> map_of (fieldOutputs sample_bad_frame) ''NT11'' = Some [sample_v1, sample_bad_value]
      \<and> sample_bad_value \<in> set [sample_v1, sample_bad_value]
      \<and> value_float (fv_data sample_bad_value) = Inl TypeError"
    by (simp add: step_skipped_def sample_bad_step_def sample_bad_frame_def
        sample_bad_value_def value_float_def)
  have other: "py_float (PyTuple [PyFloat 1, PyFloat 2]) = Inl TypeError
      \<and> (\<forall>y. PyTuple [PyFloat 1, PyFloat 2] \<noteq> PyList [y]
             \<and> PyTuple [PyFloat 1, PyFloat 2] \<noteq> PyTuple [y])"
    by simp
  show ?thesis
    using export_payload_shapes [where val = "PyTuple [PyFloat 1, PyFloat 2]" and e = TypeError
        and x = "PyFloat 31" and buckets = "[]" and v = sample_v2
        and buckets' = "projr (add_value [] sample_v2)" and sname = "''Thermal_Step''"
        and step = sample_bad_step and steps = "[(''Thermal_Step'', sample_bad_step)]"
        and step_filter = None and fr = sample_bad_frame
        and vs = "[sample_v1, sample_bad_value]" and w = sample_bad_value and e' = TypeError]
      export_payload_shapes [where val = "PyFloat 20" and r = 20 and x = "PyFloat 21"]
      ok bad other
    by (auto simp: sample_v2_def)
qed

subsection \<open>The text of a section point determines it\<close>

lemma hex_val_hex_digit: "n < 16 \<Longrightarrow> hex_val (hex_digit n) = n"
  by (simp add: hex_val_def hex_digit_def)

lemma unescape_hd_escape: "unescape_hd (json_escape_char c @ r) = Some (c, r)"
proof -
  have n: "(of_char c :: nat) < 256" by simp
  then have d: "(of_char c :: nat) div 16 < 16" by arith
  have m: "(of_char c :: nat) mod 16 < 16" by simp
  have "char_of (16 * ((of_char c :: nat) div 16) + (of_char c :: nat) mod 16) = c"
    by simp
  then show ?thesis
    by (simp add: json_escape_char_def backslash_def dquote_def
        hex_val_hex_digit [OF d] hex_val_hex_digit [OF m])
qed

lemma escape_char_hd: "\<exists>h t. json_escape_char c = h # t \<and> h \<noteq> dquote"
  by (simp add: json_escape_char_def backslash_def dquote_def)

lemma escaped_inj:
  "concat (map json_escape_char s1) @ dquote # r1 = concat (map json_escape_char s2) @ dquote # r2
   \<Longrightarrow> s1 = s2 \<and> r1 = r2"
proof (induction s1 arbitrary: s2)
  case Nil
  show ?case
  proof (cases s2)
    case Nil
    with Nil.prems show ?thesis by simp
  next
    case (Cons c cs)
    from escape_char_hd [of c] obtain h t where "json_escape_char c = h # t" "h \<noteq> dquote"
      by blast
    with Nil.prems Cons show ?thesis by simp
  qed
next
  case (Cons c1 cs1)
  show ?case
  proof (cases s2)
    case Nil
    from escape_char_hd [of c1] obtain h t where "json_escape_char c1 = h # t" "h \<noteq> dquote"
      by blast
    with Cons.prems Nil show ?thesis by simp
  next
    case (Cons c2 cs2)
    with Cons.prems have eq: "json_escape_char c1 @ (concat (map json_escape_char cs1) @ dquote # r1)
        = json_escape_char c2 @ (concat (map json_escape_char cs2) @ dquote # r2)"
      by simp
    have "unescape_hd (json_escape_char c1 @ (concat (map json_escape_char cs1) @ dquote # r1))
        = unescape_hd (json_escape_char c2 @ (concat (map json_escape_char cs2) @ dquote # r2))"
      by (simp only: eq)
    then have c: "c1 = c2" and rest: "concat (map json_escape_char cs1) @ dquote # r1
        = concat (map json_escape_char cs2) @ dquote # r2"
      by (simp_all add: unescape_hd_escape)
    from Cons.IH [OF rest] c Cons show ?thesis by simp
  qed
qed

lemma json_string_inj: "json_string s1 @ r1 = json_string s2 @ r2 \<Longrightarrow> s1 = s2 \<and> r1 = r2"
  using escaped_inj [of s1 r1 s2 r2] by (simp add: json_string_def)

lemma undec_dec_nat: "undec (dec_nat n) = n"
proof (induction n rule: dec_nat.induct)
  case (1 n)
  show ?case
  proof (cases "n < 10")
    case True
    then show ?thesis by (simp add: dec_nat.simps [of n] undec_def digit_val_def)
  next
    case False
    then have "undec (dec_nat (n div 10)) = n div 10" using 1 by simp
    moreover have "digit_val (char_of (48 + n mod 10)) = n mod 10"
      by (simp add: digit_val_def)
    ultimately show ?thesis using False
      by (simp add: dec_nat.simps [of n] undec_def)
  qed
qed

lemma dec_nat_inj: "dec_nat m = dec_nat n \<Longrightarrow> m = n"
  using undec_dec_nat by metis

lemma dec_nat_hd: "\<exists>h t. dec_nat n = h # t \<and> h \<noteq> CHR ''-'' \<and> h \<noteq> CHR ''n''"
proof (induction n rule: dec_nat.induct)
  case (1 n)
  show ?case
  proof (cases "n < 10")
    case True
    then have oc: "(of_char (char_of (48 + n)) :: nat) = 48 + n" by simp
    have "(of_char (char_of (48 + n)) :: nat) \<noteq> of_char CHR ''-''"
      "(of_char (char_of (48 + n)) :: nat) \<noteq> of_char CHR ''n''"
      unfolding oc using True by simp_all
    then have "char_of (48 + n) \<noteq> CHR ''-''" "char_of (48 + n) \<noteq> CHR ''n''"
      by metis+
    then show ?thesis using True by (simp add: dec_nat.simps [of n])
  next
    case False
    with 1 obtain h t where "dec_nat (n div 10) = h # t" "h \<noteq> CHR ''-''" "h \<noteq> CHR ''n''" by blast
    then show ?thesis using False by (simp add: dec_nat.simps [of n])
  qed
qed

lemma json_int_inj: "json_int i = json_int j \<Longrightarrow> i = j"
proof -
  assume a: "json_int i = json_int j"
  obtain h t where h: "dec_nat (nat i) = h # t" "h \<noteq> CHR ''-''" using dec_nat_hd by blast
  obtain h' t' where h': "dec_nat (nat j) = h' # t'" "h' \<noteq> CHR ''-''" using dec_nat_hd by blast
  show ?thesis
  proof (cases "i < 0"; cases "j < 0")
    assume "i < 0" "j < 0"
    with a have "nat (- i) = nat (- j)" by (auto simp: json_int_def dest: dec_nat_inj)
    with \<open>i < 0\<close> \<open>j < 0\<close> show ?thesis by simp
  next
    assume "i < 0" "\<not> j < 0"
    with a h' show ?thesis by (simp add: json_int_def)
  next
    assume "\<not> i < 0" "j < 0"
    with a h show ?thesis by (auto simp add: json_int_def)
  next
    assume "\<not> i < 0" "\<not> j < 0"
    with a have "nat i = nat j" by (auto simp: json_int_def dest: dec_nat_inj)
    with \<open>\<not> i < 0\<close> \<open>\<not> j < 0\<close> show ?thesis by simp
  qed
qed

lemma json_int_not_null: "json_int i \<noteq> ''null''"
proof -
  obtain h t where h: "dec_nat (nat i) = h # t" "h \<noteq> CHR ''n''" using dec_nat_hd by blast
  then show ?thesis by (simp add: json_int_def)
qed

lemma json_string_not_null: "json_string s @ r \<noteq> ''null'' @ r'"
  by (simp add: json_string_def dquote_def)

lemma enc_desc_inj: "enc_desc a @ r = enc_desc b @ r' \<Longrightarrow> a = b \<and> r = r'"
  using json_string_not_null [of _ r r'] json_string_not_null [of _ r' r]
  by (cases a; cases b) (auto simp: enc_desc_def dest: json_string_inj)

lemma enc_num_inj: "enc_num a = enc_num b \<Longrightarrow> a = b"
  using json_int_not_null
  by (cases a; cases b) (auto simp: enc_num_def dest: json_int_inj)

lemma dumps_sp_inj: "dumps_sp a = dumps_sp b \<Longrightarrow> a = b"
proof (cases a; cases b)
  fix x y assume ab: "a = Some x" "b = Some y" and eq: "dumps_sp a = dumps_sp b"
  let ?mid = "'', '' @ json_string ''number'' @ '': ''"
  from eq ab have "enc_desc (d_description x) @ (?mid @ enc_num (d_number x) @ ''}'')
      = enc_desc (d_description y) @ (?mid @ enc_num (d_number y) @ ''}'')"
    by (simp add: enc_desc_def enc_num_def)
  from enc_desc_inj [OF this] have "d_description x = d_description y" "enc_num (d_number x) = enc_num (d_number y)"
    by simp_all
  with enc_num_inj have "d_description x = d_description y" "d_number x = d_number y" by blast+
  with ab show ?thesis by simp
qed (simp_all)

subsection \<open>The buckets of a frame\<close>

lemma keys_dict_modify: "map fst (dict_modify d k f) = map fst d"
  by (induction d) (auto simp: dict_modify_def)

lemma keys_setdefault: "map fst (setdefault d k v) = (if k \<in> set (map fst d) then map fst d else map fst d @ [k])"
  by (auto simp: setdefault_def map_of_eq_None_iff split: option.splits)
     (metis domI domIff map_of_eq_None_iff image_eqI fst_conv)+

lemma buckets_ok_map_of: "buckets_ok d \<Longrightarrow> map_of d k = Some b \<Longrightarrow> bucket_ok k b"
  by (auto simp: buckets_ok_def list_all_iff dest: map_of_SomeD)

lemma buckets_ok_iff: "buckets_ok d \<longleftrightarrow> distinct (map fst d) \<and> (\<forall>k b. map_of d k = Some b \<longrightarrow> bucket_ok k b)"
proof (cases "distinct (map fst d)")
  case True
  then have "(\<forall>(k, b) \<in> set d. bucket_ok k b) \<longleftrightarrow> (\<forall>k b. map_of d k = Some b \<longrightarrow> bucket_ok k b)"
    by auto
  with True show ?thesis by (simp add: buckets_ok_def list_all_iff)
next
  case False
  then show ?thesis by (simp add: buckets_ok_def)
qed

lemma add_value_map_of:
  assumes "add_value d v = Inr d'"
  shows "\<exists>iname lbl valf. fv_instance v = Some iname \<and> value_entry v = Inr (lbl, [valf])
     \<and> map fst d' = (if bucket_key_of iname v \<in> set (map fst d) then map fst d
                      else map fst d @ [bucket_key_of iname v])
     \<and> (\<forall>k. map_of d' k =
          (if k = bucket_key_of iname v
           then Some ((case map_of d k of
                         None \<Rightarrow> \<lparr>b_labels = [], b_values = [], b_instance = iname,
                                  b_position = position_name (fv_position v),
                                  b_section_point = sp_to_dict (fv_sectionPoint v)\<rparr>
                       | Some b \<Rightarrow> b)
                  \<lparr>b_labels := b_labels (case map_of d k of
                         None \<Rightarrow> \<lparr>b_labels = [], b_values = [], b_instance = iname,
                                  b_position = position_name (fv_position v),
                                  b_section_point = sp_to_dict (fv_sectionPoint v)\<rparr>
                       | Some b \<Rightarrow> b) @ [lbl],
                    b_values := b_values (case map_of d k of
                         None \<Rightarrow> \<lparr>b_labels = [], b_values = [], b_instance = iname,
                                  b_position = position_name (fv_position v),
                                  b_section_point = sp_to_dict (fv_sectionPoint v)\<rparr>
                       | Some b \<Rightarrow> b) @ [[valf]]\<rparr>)
           else map_of d k))"
  using assms
  by (auto simp: add_value_def Let_def bucket_key_of_def value_entry_def map_of_dict_modify
      map_of_setdefault keys_dict_modify keys_setdefault
      split: option.splits sum.splits)

lemma add_value_ok:
  assumes "buckets_ok d" and "add_value d v = Inr d'"
  shows "buckets_ok d'"
proof -
  from add_value_map_of [OF assms(2)] obtain iname lbl valf where
    i: "fv_instance v = Some iname" and
    keys: "map fst d' = (if bucket_key_of iname v \<in> set (map fst d) then map fst d
                      else map fst d @ [bucket_key_of iname v])" and
    m: "\<And>k. map_of d' k =
          (if k = bucket_key_of iname v
           then Some ((case map_of d k of
                         None \<Rightarrow> \<lparr>b_labels = [], b_values = [], b_instance = iname,
                                  b_position = position_name (fv_position v),
                                  b_section_point = sp_to_dict (fv_sectionPoint v)\<rparr>
                       | Some b \<Rightarrow> b)
                  \<lparr>b_labels := b_labels (case map_of d k of
                         None \<Rightarrow> \<lparr>b_labels = [], b_values = [], b_instance = iname,
                                  b_position = position_name (fv_position v),
                                  b_section_point = sp_to_dict (fv_sectionPoint v)\<rparr>
                       | Some b \<Rightarrow> b) @ [lbl],
                    b_values := b_values (case map_of d k of
                         None \<Rightarrow> \<lparr>b_labels = [], b_values = [], b_instance = iname,
                                  b_position = position_name (fv_position v),
                                  b_section_point = sp_to_dict (fv_sectionPoint v)\<rparr>
                       | Some b \<Rightarrow> b) @ [[valf]]\<rparr>)
           else map_of d k)"
    by blast
  from assms(1) have dist: "distinct (map fst d)"
    by (simp add: buckets_ok_def)
  note ok = buckets_ok_map_of [OF assms(1)]
  from dist keys have "distinct (map fst d')" by (simp split: if_splits)
  moreover have "bucket_ok k b" if "map_of d' k = Some b" for k b
    using that ok [of k] unfolding m [of k]
    by (auto simp: bucket_ok_def bucket_key_of_def split: if_splits option.splits)
  ultimately show ?thesis by (simp add: buckets_ok_iff)
qed

lemma add_value_entries:
  assumes "buckets_ok d" and "add_value d v = Inr d'"
  shows "map Inr (entries_at d' k)
       = map Inr (entries_at d k) @ (if value_key v = Some k then [value_entry v] else [])"
proof -
  from add_value_map_of [OF assms(2)] obtain iname lbl valf where
    i: "fv_instance v = Some iname" and e: "value_entry v = Inr (lbl, [valf])" and
    m: "map_of d' k =
          (if k = bucket_key_of iname v
           then Some ((case map_of d k of
                         None \<Rightarrow> \<lparr>b_labels = [], b_values = [], b_instance = iname,
                                  b_position = position_name (fv_position v),
                                  b_section_point = sp_to_dict (fv_sectionPoint v)\<rparr>
                       | Some b \<Rightarrow> b)
                  \<lparr>b_labels := b_labels (case map_of d k of
                         None \<Rightarrow> \<lparr>b_labels = [], b_values = [], b_instance = iname,
                                  b_position = position_name (fv_position v),
                                  b_section_point = sp_to_dict (fv_sectionPoint v)\<rparr>
                       | Some b \<Rightarrow> b) @ [lbl],
                    b_values := b_values (case map_of d k of
                         None \<Rightarrow> \<lparr>b_labels = [], b_values = [], b_instance = iname,
                                  b_position = position_name (fv_position v),
                                  b_section_point = sp_to_dict (fv_sectionPoint v)\<rparr>
                       | Some b \<Rightarrow> b) @ [[valf]]\<rparr>)
           else map_of d k)"
    by blast
  have len: "length (b_labels b) = length (b_values b)" if "map_of d k = Some b" for b
    using buckets_ok_map_of [OF assms(1) that] by (simp add: bucket_ok_def)
  show ?thesis
    using len unfolding entries_at_def m value_key_def i e
    by (auto split: option.splits)
qed

lemma bucket_values_ok:
  "buckets_ok d \<Longrightarrow> bucket_values d vs = Inr d' \<Longrightarrow> buckets_ok d'"
  by (induction vs arbitrary: d) (auto split: sum.splits dest: add_value_ok)

lemma bucket_values_entries:
  "buckets_ok d \<Longrightarrow> bucket_values d vs = Inr d' \<Longrightarrow>
   map Inr (entries_at d' k)
     = map Inr (entries_at d k) @ map value_entry (filter (\<lambda>v. value_key v = Some k) vs)"
proof (induction vs arbitrary: d)
  case Nil
  then show ?case by simp
next
  case (Cons v vs)
  from Cons.prems(2) obtain d1 where a: "add_value d v = Inr d1" and r: "bucket_values d1 vs = Inr d'"
    by (auto split: sum.splits)
  from add_value_ok [OF Cons.prems(1) a] have ok1: "buckets_ok d1" .
  from Cons.IH [OF ok1 r] add_value_entries [OF Cons.prems(1) a, of k]
  show ?case by simp
qed

lemma bucket_values_keys:
  "bucket_values d vs = Inr d' \<Longrightarrow>
   set (map fst d') = set (map fst d) \<union> {k. \<exists>v \<in> set vs. value_key v = Some k}"
proof (induction vs arbitrary: d)
  case Nil
  then show ?case by simp
next
  case (Cons v vs)
  from Cons.prems obtain d1 where a: "add_value d v = Inr d1" and r: "bucket_values d1 vs = Inr d'"
    by (auto split: sum.splits)
  from add_value_map_of [OF a] obtain iname where
    i: "fv_instance v = Some iname" and
    keys: "map fst d1 = (if bucket_key_of iname v \<in> set (map fst d) then map fst d
                      else map fst d @ [bucket_key_of iname v])"
    by blast
  from keys have "set (map fst d1) = insert (bucket_key_of iname v) (set (map fst d))"
    by (cases "bucket_key_of iname v \<in> set (map fst d)") (simp_all add: insert_absorb)
  with Cons.IH [OF r] i show ?case by (auto simp: value_key_def)
qed

lemma buckets_ok_Nil: "buckets_ok []"
  by (simp add: buckets_ok_def)

lemma frame_buckets:
  assumes "export_frame sname fidx fr = Inr ls"
    and "map_of (fieldOutputs fr) ''NT11'' = Some vs" and "vs \<noteq> []"
  shows "\<exists>d. bucket_values [] vs = Inr d \<and> buckets_ok d
           \<and> ls = map (\<lambda>(key, b). bucket_line sname fidx fr b) d"
  using assms bucket_values_ok [OF buckets_ok_Nil, of vs]
  by (auto simp: export_frame_def split: sum.splits)

lemma line_key_bucket_line: "bucket_ok k b \<Longrightarrow> line_key (bucket_line sname fidx fr b) = k"
  by (cases k) (auto simp: bucket_ok_def line_key_def bucket_line_def)

lemma line_keys_buckets:
  assumes "buckets_ok d"
  shows "map line_key (map (\<lambda>(key, b). bucket_line sname fidx fr b) d) = map fst d"
proof -
  have "\<forall>(k, b) \<in> set d. bucket_ok k b" using assms by (simp add: buckets_ok_def list_all_iff)
  then show ?thesis by (induction d) (auto simp: line_key_bucket_line)
qed

lemma frame_lines_distinct:
  assumes "export_frame sname fidx fr = Inr ls"
    and "map_of (fieldOutputs fr) ''NT11'' = Some vs"
  shows "distinct (map line_key ls)"
proof (cases "vs = []")
  case True
  with assms show ?thesis by (simp add: export_frame_def)
next
  case False
  from frame_buckets [OF assms False] obtain d where
    d: "buckets_ok d" "ls = map (\<lambda>(key, b). bucket_line sname fidx fr b) d" by blast
  then show ?thesis by (simp only: line_keys_buckets [OF d(1)]) (simp add: buckets_ok_def)
qed

lemma frame_line_entries:
  assumes "export_frame sname fidx fr = Inr ls"
    and "map_of (fieldOutputs fr) ''NT11'' = Some vs" and "l \<in> set ls"
  shows "length (l_labels l) = length (l_values l)
       \<and> map Inr (zip (l_labels l) (l_values l)) = map value_entry (filter (\<lambda>v. in_line v l) vs)"
proof (cases "vs = []")
  case True
  with assms show ?thesis by (simp add: export_frame_def)
next
  case False
  from frame_buckets [OF assms(1,2) False] obtain d where
    bv: "bucket_values [] vs = Inr d" and ok: "buckets_ok d"
    and ls: "ls = map (\<lambda>(key, b). bucket_line sname fidx fr b) d" by blast
  from assms(3) ls obtain k b where kb: "(k, b) \<in> set d" and l: "l = bucket_line sname fidx fr b"
    by auto
  from ok kb have m: "map_of d k = Some b" by (simp add: buckets_ok_def)
  from buckets_ok_map_of [OF ok m] have bok: "bucket_ok k b" .
  then have len: "length (b_labels b) = length (b_values b)" by (simp add: bucket_ok_def)
  from line_key_bucket_line [OF bok] l have lk: "line_key l = k" by simp
  from bucket_values_entries [OF buckets_ok_Nil bv, of k] m
  have "map Inr (zip (b_labels b) (b_values b))
      = map value_entry (filter (\<lambda>v. value_key v = Some k) vs)"
    by (simp add: entries_at_def)
  with len l lk show ?thesis by (simp add: in_line_def bucket_line_def)
qed

lemma frame_line_exists:
  assumes "export_frame sname fidx fr = Inr ls"
    and "map_of (fieldOutputs fr) ''NT11'' = Some vs" and "v \<in> set vs"
  shows "\<exists>l. l \<in> set ls \<and> in_line v l"
proof -
  from assms(3) have ne: "vs \<noteq> []" by auto
  from frame_buckets [OF assms(1,2) ne] obtain d where
    bv: "bucket_values [] vs = Inr d" and ok: "buckets_ok d"
    and ls: "ls = map (\<lambda>(key, b). bucket_line sname fidx fr b) d" by blast
  have "\<exists>k. value_key v = Some k"
  proof (cases "value_key v")
    case None
    then have "fv_instance v = None" by (simp add: value_key_def)
    then have "add_value d' v = Inl AttributeError" for d' by (simp add: add_value_def)
    with assms(3) have "\<exists>e. bucket_values d' vs = Inl e" for d'
    proof (induction vs arbitrary: d')
      case Nil
      then show ?case by simp
    next
      case (Cons w ws)
      then show ?case by (cases "add_value d' w") auto
    qed
    then obtain e where "bucket_values [] vs = Inl e" by blast
    with bv show ?thesis by simp
  qed blast
  then obtain k where k: "value_key v = Some k" by blast
  with bucket_values_keys [OF bv] assms(3) have "k \<in> set (map fst d)" by auto
  then obtain b where kb: "(k, b) \<in> set d" by auto
  with ok have "bucket_ok k b" by (auto simp: buckets_ok_def list_all_iff)
  from line_key_bucket_line [OF this] have "line_key (bucket_line sname fidx fr b) = k" .
  with k kb ls show ?thesis by (force simp: in_line_def)
qed

lemma same_section_point_dict:
  "same_section_point a b \<longleftrightarrow> sp_to_dict a = sp_to_dict b"
  by (cases a; cases b) simp_all

lemma value_key_eq:
  assumes "value_key v = Some k" and "value_key w = Some k"
  shows "fv_instance v = fv_instance w \<and> fv_position v = fv_position w
       \<and> sp_to_dict (fv_sectionPoint v) = sp_to_dict (fv_sectionPoint w)"
proof -
  from assms obtain i j where i: "fv_instance v = Some i" "k = bucket_key_of i v"
    and j: "fv_instance w = Some j" "k = bucket_key_of j w"
    by (auto simp: value_key_def)
  then have "i = j" "str_const (fv_position v) = str_const (fv_position w)"
    "dumps_sp (sp_to_dict (fv_sectionPoint v)) = dumps_sp (sp_to_dict (fv_sectionPoint w))"
    by (simp_all add: bucket_key_of_def position_name_str)
  moreover have "fv_position v = fv_position w"
    using \<open>str_const (fv_position v) = str_const (fv_position w)\<close>
    by (cases "fv_position v"; cases "fv_position w") simp
  ultimately show ?thesis using i j dumps_sp_inj by auto
qed

lemma value_key_same:
  assumes "fv_instance v = fv_instance w" and "fv_position v = fv_position w"
    and "same_section_point (fv_sectionPoint v) (fv_sectionPoint w)"
  shows "value_key v = value_key w"
  using assms by (simp add: value_key_def bucket_key_of_def same_section_point_dict)

lemma value_key_null_differs:
  assumes "fv_sectionPoint v = None" and "fv_sectionPoint w \<noteq> None"
  shows "value_key v \<noteq> value_key w \<or> value_key v = None"
  using assms
  by (cases "fv_sectionPoint w"; cases "fv_instance v"; cases "fv_instance w")
     (auto simp: value_key_def bucket_key_of_def)

lemma map_Inr_eq_map:
  assumes "map Inr ys = map g xs"
  shows "ys = map (projr \<circ> g) xs \<and> (\<forall>x \<in> set xs. \<exists>y. g x = Inr y)"
  using assms
proof (induction xs arbitrary: ys)
  case Nil
  then show ?case by simp
next
  case (Cons x xs)
  then obtain y ys' where ys: "ys = y # ys'" by (cases ys) auto
  with Cons.prems have gx: "g x = Inr y" and rest: "map Inr ys' = map g xs" by simp_all
  from Cons.IH [OF rest] ys gx show ?case by simp
qed

lemma value_entry_label: "value_entry v = Inr e \<Longrightarrow> value_label v = Some (fst e)"
  by (cases "value_label v") (auto simp: value_entry_def split: sum.splits)

lemma bucket_labels_distinct:
  assumes d: "distinct (map (\<lambda>v. (fv_instance v, source_slot v)) vs)"
    and e: "map Inr (zip labels vals) = map value_entry (filter (\<lambda>v. value_key v = Some k) vs)"
    and len: "length labels = length vals"
  shows "distinct labels"
proof -
  let ?xs = "filter (\<lambda>v. value_key v = Some k) vs"
  let ?slot = "\<lambda>v. (fv_instance v, source_slot v)"
  from map_Inr_eq_map [OF e] have z: "zip labels vals = map (projr \<circ> value_entry) ?xs"
    and inr: "\<And>x. x \<in> set ?xs \<Longrightarrow> \<exists>y. value_entry x = Inr y" by blast+
  from len have "labels = map fst (zip labels vals)" by simp
  with z have lab: "labels = map (fst \<circ> projr \<circ> value_entry) ?xs" by simp
  from d have dx: "distinct (map ?slot ?xs)" by (rule distinct_map_filter)
  then have dxs: "distinct ?xs" and inj: "inj_on ?slot (set ?xs)" by (simp_all add: distinct_map)
  have "inj_on (fst \<circ> projr \<circ> value_entry) (set ?xs)"
  proof (rule inj_onI)
    fix v w assume v: "v \<in> set ?xs" and w: "w \<in> set ?xs"
      and eq: "(fst \<circ> projr \<circ> value_entry) v = (fst \<circ> projr \<circ> value_entry) w"
    from inr [OF v] obtain a where a: "value_entry v = Inr a" by blast
    from inr [OF w] obtain b where b: "value_entry w = Inr b" by blast
    from eq a b have "fst a = fst b" by simp
    with value_entry_label [OF a] value_entry_label [OF b]
    have "value_label v = value_label w" by simp
    moreover from v w have "value_key v = Some k" "value_key w = Some k" by simp_all
    from value_key_eq [OF this] have "fv_instance v = fv_instance w"
      "fv_position v = fv_position w"
      "sp_to_dict (fv_sectionPoint v) = sp_to_dict (fv_sectionPoint w)" by simp_all
    ultimately have "?slot v = ?slot w" by (simp add: source_slot_def)
    with inj v w show "v = w" by (auto dest: inj_onD)
  qed
  with dxs lab show ?thesis by (simp add: distinct_map)
qed

lemma distinct_slots_instance:
  "distinct (map source_slot vs) \<Longrightarrow> distinct (map (\<lambda>v. (fv_instance v, source_slot v)) vs)"
  by (induction vs) auto

lemma sample_frame_lines: "export_frame ''Thermal_Step'' 0 sample_frame = Inr sample_lines"
  by (simp add: sample_v1_def sample_v2_def sample_v3_def sample_v4_def sample_v5_def
      sample_values_def sample_frame_def sample_lines_def
      export_frame_def add_value_def Let_def value_float_def value_label_def
      setdefault_def dict_modify_def bucket_line_def position_name_str
      NODAL_def INTEGRATION_POINT_def)

lemma sample_frame_values: "map_of (fieldOutputs sample_frame) ''NT11'' = Some sample_values"
  by (simp add: sample_frame_def)

text \<open>
  Claim C2. Take a frame that is exported without an exception, and two of its value
  records \<open>v1\<close> and \<open>v2\<close>. When they carry the same instance, the same position and the
  same section point (both none, or equal number and description, whatever the
  handles), one line of the frame holds both, no other line holds either, and that line
  is made of exactly the values filed under its key, in the order of the source. When
  \<open>v1\<close> has no section point and \<open>v2\<close> has one, no line holds both.
\<close>

theorem section_point_bucketing:
  assumes "export_frame sname fidx fr = Inr ls"
    and "map_of (fieldOutputs fr) ''NT11'' = Some vs"
    and "v1 \<in> set vs" and "v2 \<in> set vs"
  shows "(fv_instance v1 = fv_instance v2 \<and> fv_position v1 = fv_position v2
          \<and> same_section_point (fv_sectionPoint v1) (fv_sectionPoint v2)
          \<longrightarrow> (\<exists>l. l \<in> set ls \<and> in_line v1 l \<and> in_line v2 l
                 \<and> (\<forall>l' \<in> set ls. in_line v1 l' \<or> in_line v2 l' \<longrightarrow> l' = l)
                 \<and> map Inr (zip (l_labels l) (l_values l))
                     = map value_entry (filter (\<lambda>v. in_line v l) vs)))
       \<and> (fv_sectionPoint v1 = None \<and> fv_sectionPoint v2 \<noteq> None
          \<longrightarrow> (\<forall>l. \<not> (in_line v1 l \<and> in_line v2 l)))"
proof (intro conjI impI)
  assume same: "fv_instance v1 = fv_instance v2 \<and> fv_position v1 = fv_position v2
          \<and> same_section_point (fv_sectionPoint v1) (fv_sectionPoint v2)"
  then have keq: "value_key v1 = value_key v2" by (simp add: value_key_same)
  from frame_line_exists [OF assms(1,2,3)] obtain l where l: "l \<in> set ls" "in_line v1 l" by blast
  with keq have l2: "in_line v2 l" by (simp add: in_line_def)
  have uniq: "l' = l" if "l' \<in> set ls" "in_line v1 l' \<or> in_line v2 l'" for l'
  proof -
    from that(2) keq l(2) have "line_key l' = line_key l" by (auto simp: in_line_def)
    with frame_lines_distinct [OF assms(1,2)] that(1) l(1) show ?thesis
      by (auto simp: distinct_map dest: inj_onD)
  qed
  from frame_line_entries [OF assms(1,2) l(1)] l l2 uniq
  show "\<exists>l. l \<in> set ls \<and> in_line v1 l \<and> in_line v2 l
                 \<and> (\<forall>l' \<in> set ls. in_line v1 l' \<or> in_line v2 l' \<longrightarrow> l' = l)
                 \<and> map Inr (zip (l_labels l) (l_values l))
                     = map value_entry (filter (\<lambda>v. in_line v l) vs)"
    by blast
next
  assume "fv_sectionPoint v1 = None \<and> fv_sectionPoint v2 \<noteq> None"
  with value_key_null_differs [of v1 v2] show "\<forall>l. \<not> (in_line v1 l \<and> in_line v2 l)"
    by (auto simp: in_line_def)
qed

theorem section_point_bucketing_witness:
  "fv_sectionPoint sample_v3 \<noteq> fv_sectionPoint sample_v4
   \<and> same_section_point (fv_sectionPoint sample_v3) (fv_sectionPoint sample_v4)
   \<and> (\<exists>l. l \<in> set sample_lines \<and> in_line sample_v3 l \<and> in_line sample_v4 l
          \<and> map Inr (zip (l_labels l) (l_values l))
              = map value_entry (filter (\<lambda>v. in_line v l) sample_values))
   \<and> (\<forall>l. \<not> (in_line sample_v5 l \<and> in_line sample_v3 l))"
proof -
  have in3: "sample_v3 \<in> set sample_values" and in4: "sample_v4 \<in> set sample_values"
    and in5: "sample_v5 \<in> set sample_values"
    by (simp_all add: sample_values_def)
  have same: "fv_instance sample_v3 = fv_instance sample_v4
      \<and> fv_position sample_v3 = fv_position sample_v4
      \<and> same_section_point (fv_sectionPoint sample_v3) (fv_sectionPoint sample_v4)"
    and differ: "fv_sectionPoint sample_v3 \<noteq> fv_sectionPoint sample_v4"
    and null: "fv_sectionPoint sample_v5 = None \<and> fv_sectionPoint sample_v3 \<noteq> None"
    by (simp_all add: sample_v3_def sample_v4_def sample_v5_def)
  from section_point_bucketing [OF sample_frame_lines sample_frame_values in3 in4] same
  have "\<exists>l. l \<in> set sample_lines \<and> in_line sample_v3 l \<and> in_line sample_v4 l
          \<and> map Inr (zip (l_labels l) (l_values l))
              = map value_entry (filter (\<lambda>v. in_line v l) sample_values)"
    by blast
  moreover from section_point_bucketing [OF sample_frame_lines sample_frame_values in5 in3] null
  have "\<forall>l. \<not> (in_line sample_v5 l \<and> in_line sample_v3 l)"
    by blast
  ultimately show ?thesis using same differ by blast
qed

lemma frame_labels_values_aligned:
  assumes "export_frame sname fidx fr = Inr ls"
    and "map_of (fieldOutputs fr) ''NT11'' = Some vs"
    and "l \<in> set ls"
  shows "length (l_labels l) = length (l_values l)
       \<and> map Inr (zip (l_labels l) (l_values l)) = map value_entry (filter (\<lambda>v. in_line v l) vs)
       \<and> (distinct (map source_slot vs) \<longrightarrow> distinct (l_labels l))
       \<and> (distinct (map (\<lambda>v. (fv_instance v, source_slot v)) vs) \<longrightarrow> distinct (l_labels l))"
proof -
  from frame_line_entries [OF assms] have len: "length (l_labels l) = length (l_values l)"
    and e: "map Inr (zip (l_labels l) (l_values l))
       = map value_entry (filter (\<lambda>v. value_key v = Some (line_key l)) vs)"
    by (simp_all add: in_line_def)
  have "distinct (l_labels l)" if "distinct (map (\<lambda>v. (fv_instance v, source_slot v)) vs)"
    using bucket_labels_distinct [OF that e len] .
  with len e distinct_slots_instance show ?thesis by (auto simp: in_line_def)
qed

lemma export_frame_line_fields:
  assumes "export_frame sname fidx fr = Inr ls" and "l \<in> set ls"
  shows "l_step l = sname \<and> l_frame_index l = fidx \<and> l_frame_value l = frameValue fr
       \<and> (\<exists>vs. map_of (fieldOutputs fr) ''NT11'' = Some vs)"
  using assms
  by (auto simp: export_frame_def bucket_line_def split: option.splits if_splits sum.splits)

lemma export_frames_lines:
  assumes "l \<in> set (snd (export_frames sname i frs))"
  shows "\<exists>k ls. k < length frs \<and> export_frame sname (i + k) (frs ! k) = Inr ls \<and> l \<in> set ls"
  using assms
proof (induction frs arbitrary: i)
  case Nil
  then show ?case by simp
next
  case (Cons fr frs)
  show ?case
  proof (cases "export_frame sname i fr")
    case (Inl e)
    with Cons.prems show ?thesis by simp
  next
    case (Inr ls)
    with Cons.prems have "l \<in> set ls \<or> l \<in> set (snd (export_frames sname (Suc i) frs))"
      by (auto split: prod.splits)
    then show ?thesis
    proof
      assume "l \<in> set ls"
      with Inr have "0 < length (fr # frs) \<and> export_frame sname (i + 0) ((fr # frs) ! 0) = Inr ls
          \<and> l \<in> set ls" by simp
      then show ?thesis by blast
    next
      assume "l \<in> set (snd (export_frames sname (Suc i) frs))"
      from Cons.IH [OF this] obtain k ls' where
        k: "k < length frs" "export_frame sname (Suc i + k) (frs ! k) = Inr ls'" "l \<in> set ls'"
        by blast
      then have "Suc k < length (fr # frs) \<and> export_frame sname (i + Suc k) ((fr # frs) ! Suc k) = Inr ls'
          \<and> l \<in> set ls'" by simp
      then show ?thesis by blast
    qed
  qed
qed

lemma export_nt11_lines:
  assumes "l \<in> set (snd (export_nt11 step_filter steps))"
  shows "\<exists>sname step k ls. (sname, step) \<in> set steps \<and> \<not> step_skipped step_filter sname
           \<and> k < length (st_frames step)
           \<and> export_frame sname k (st_frames step ! k) = Inr ls \<and> l \<in> set ls"
  using assms
proof (induction steps)
  case Nil
  then show ?case by simp
next
  case (Cons p steps)
  obtain sname step where p: "p = (sname, step)" by (cases p)
  show ?case
  proof (cases "step_skipped step_filter sname")
    case True
    with Cons.prems p have "l \<in> set (snd (export_nt11 step_filter steps))" by simp
    from Cons.IH [OF this] show ?thesis by auto
  next
    case False
    obtain res ls where f: "export_frames sname 0 (st_frames step) = (res, ls)"
      by (cases "export_frames sname 0 (st_frames step)")
    have "l \<in> set ls \<or> l \<in> set (snd (export_nt11 step_filter steps))"
      using Cons.prems p False f by (cases res) (auto split: prod.splits)
    then show ?thesis
    proof
      assume "l \<in> set ls"
      with f have "l \<in> set (snd (export_frames sname 0 (st_frames step)))" by simp
      from export_frames_lines [OF this] obtain k ls' where
        "k < length (st_frames step)" "export_frame sname k (st_frames step ! k) = Inr ls'"
        "l \<in> set ls'" by auto
      with False p show ?thesis by auto
    next
      assume "l \<in> set (snd (export_nt11 step_filter steps))"
      from Cons.IH [OF this] show ?thesis by auto
    qed
  qed
qed

lemma sample_export_lines:
  "snd (export_nt11 None [(''Thermal_Step'', sample_step)]) = sample_lines"
  by (simp add: step_skipped_def sample_step_def sample_frame_lines)

text \<open>
  Claim C4. For every line \<open>l\<close> (one bucket) that \<open>export_nt11\<close> writes, also in a run
  that an exception ends later: the labels and the values of \<open>l\<close> have the same length;
  \<open>l\<close> comes from one frame of one step of the store, and zipping its labels and values
  gives, in the order of the source, the pair of label and value of each value record of
  that frame filed under the key of \<open>l\<close>; and when the store holds at most one value for
  each label, position and section point in that frame (the slots of its records are
  pairwise distinct), the labels of \<open>l\<close> are pairwise distinct. The last holds also when
  the slots are only distinct within each instance.
\<close>

theorem bucket_labels_values_aligned:
  assumes "l \<in> set (snd (export_nt11 step_filter steps))"
  shows "length (l_labels l) = length (l_values l)
       \<and> (\<exists>sname step fidx vs.
             (sname, step) \<in> set steps \<and> fidx < length (st_frames step)
           \<and> map_of (fieldOutputs (st_frames step ! fidx)) ''NT11'' = Some vs
           \<and> l_step l = sname \<and> l_frame_index l = fidx
           \<and> map Inr (zip (l_labels l) (l_values l))
               = map value_entry (filter (\<lambda>v. in_line v l) vs)
           \<and> (distinct (map source_slot vs) \<longrightarrow> distinct (l_labels l))
           \<and> (distinct (map (\<lambda>v. (fv_instance v, source_slot v)) vs)
                \<longrightarrow> distinct (l_labels l)))"
proof -
  from export_nt11_lines [OF assms] obtain sname step k ls where
    s: "(sname, step) \<in> set steps" and k: "k < length (st_frames step)"
    and f: "export_frame sname k (st_frames step ! k) = Inr ls" and l: "l \<in> set ls"
    by blast
  from export_frame_line_fields [OF f l] obtain vs where
    fields: "l_step l = sname" "l_frame_index l = k"
    and vs: "map_of (fieldOutputs (st_frames step ! k)) ''NT11'' = Some vs"
    by blast
  note a = frame_labels_values_aligned [OF f vs l]
  from a have len: "length (l_labels l) = length (l_values l)" by (elim conjE)
  from a have rest: "map Inr (zip (l_labels l) (l_values l))
               = map value_entry (filter (\<lambda>v. in_line v l) vs)
           \<and> (distinct (map source_slot vs) \<longrightarrow> distinct (l_labels l))
           \<and> (distinct (map (\<lambda>v. (fv_instance v, source_slot v)) vs)
                \<longrightarrow> distinct (l_labels l))"
    by (elim conjE) (intro conjI)
  from s k vs fields rest
  have "(sname, step) \<in> set steps \<and> k < length (st_frames step)
           \<and> map_of (fieldOutputs (st_frames step ! k)) ''NT11'' = Some vs
           \<and> l_step l = sname \<and> l_frame_index l = k
           \<and> map Inr (zip (l_labels l) (l_values l))
               = map value_entry (filter (\<lambda>v. in_line v l) vs)
           \<and> (distinct (map source_slot vs) \<longrightarrow> distinct (l_labels l))
           \<and> (distinct (map (\<lambda>v. (fv_instance v, source_slot v)) vs)
                \<longrightarrow> distinct (l_labels l))"
    by (intro conjI) (elim conjE, assumption)+
  then have "\<exists>sname step fidx vs.
             (sname, step) \<in> set steps \<and> fidx < length (st_frames step)
           \<and> map_of (fieldOutputs (st_frames step ! fidx)) ''NT11'' = Some vs
           \<and> l_step l = sname \<and> l_frame_index l = fidx
           \<and> map Inr (zip (l_labels l) (l_values l))
               = map value_entry (filter (\<lambda>v. in_line v l) vs)
           \<and> (distinct (map source_slot vs) \<longrightarrow> distinct (l_labels l))
           \<and> (distinct (map (\<lambda>v. (fv_instance v, source_slot v)) vs)
                \<longrightarrow> distinct (l_labels l))"
    by (intro exI)
  with len show ?thesis by (rule conjI)
qed

theorem bucket_labels_values_aligned_witness:
  "sample_lines ! 1 \<in> set (snd (export_nt11 None [(''Thermal_Step'', sample_step)]))
   \<and> distinct (map source_slot sample_values)
   \<and> length (l_labels (sample_lines ! 1)) = length (l_values (sample_lines ! 1))
   \<and> map Inr (zip (l_labels (sample_lines ! 1)) (l_values (sample_lines ! 1)))
       = map value_entry (filter (\<lambda>v. in_line v (sample_lines ! 1)) sample_values)
   \<and> distinct (l_labels (sample_lines ! 1))"
proof -
  let ?l = "sample_lines ! 1"
  have l: "?l \<in> set (snd (export_nt11 None [(''Thermal_Step'', sample_step)]))"
    unfolding sample_export_lines by (simp add: sample_lines_def)
  have d: "distinct (map source_slot sample_values)"
    by (simp add: sample_values_def source_slot_def sample_v1_def sample_v2_def sample_v3_def
        sample_v4_def sample_v5_def value_label_def NODAL_def INTEGRATION_POINT_def)
  from bucket_labels_values_aligned [OF l] obtain sname step fidx vs where
    len: "length (l_labels ?l) = length (l_values ?l)"
    and s: "(sname, step) \<in> set [(''Thermal_Step'', sample_step)]"
    and k: "fidx < length (st_frames step)"
    and vs: "map_of (fieldOutputs (st_frames step ! fidx)) ''NT11'' = Some vs"
    and z: "map Inr (zip (l_labels ?l) (l_values ?l))
               = map value_entry (filter (\<lambda>v. in_line v ?l) vs)"
    and dist: "distinct (map source_slot vs) \<longrightarrow> distinct (l_labels ?l)"
    by blast
  from s have step: "step = sample_step" by simp
  with k have "fidx = 0" by (simp add: sample_step_def)
  with vs step have "vs = sample_values" by (simp add: sample_step_def sample_frame_def)
  with len z dist d l show ?thesis by simp
qed

section \<open>Properties of the importer\<close>

lemma build_instance_trace:
  "\<exists>g. build_instance tr inst = tr @ g \<and> list_all is_geometry_write g"
proof (cases inst)
  case (Pair iname inst_rec)
  have "list_all is_geometry_write (map (\<lambda>(ety, eData). EvAddElements p ety eData) gs)" for p gs
    by (induction gs) auto
  then show ?thesis
    by (auto simp: Pair build_instance_def Let_def)
qed

lemma geometry_fold_trace:
  "\<exists>g. foldl build_instance tr mesh = tr @ g \<and> list_all is_geometry_write g"
proof (induction mesh arbitrary: tr)
  case Nil
  then show ?case by simp
next
  case (Cons inst mesh)
  from build_instance_trace [of tr inst] obtain g1 where
    g1: "build_instance tr inst = tr @ g1" "list_all is_geometry_write g1" by blast
  from Cons.IH [of "tr @ g1"] obtain g2 where
    g2: "foldl build_instance (tr @ g1) mesh = (tr @ g1) @ g2" "list_all is_geometry_write g2" by blast
  from g1 g2 have "foldl build_instance tr (inst # mesh) = tr @ (g1 @ g2)"
    "list_all is_geometry_write (g1 @ g2)" by simp_all
  then show ?case by blast
qed

lemma geometry_stage_trace:
  "\<exists>g. geometry_stage out_odb mesh = EvOdb out_odb # g \<and> list_all is_geometry_write g"
  using geometry_fold_trace [of "[EvOdb out_odb]" mesh] by (simp add: geometry_stage_def)

lemma import_frame_trace:
  "\<exists>r. im_trace (import_frame sname stp st fr) = im_trace st @ r \<and> list_all is_results_write r"
  by (simp add: import_frame_def Let_def)

lemma import_frames_trace:
  "\<exists>r. im_trace (foldl (import_frame sname stp) st frs) = im_trace st @ r \<and> list_all is_results_write r"
proof (induction frs arbitrary: st)
  case Nil
  then show ?case by simp
next
  case (Cons fr frs)
  from import_frame_trace [of sname stp st fr] obtain r1 where
    r1: "im_trace (import_frame sname stp st fr) = im_trace st @ r1" "list_all is_results_write r1"
    by blast
  from Cons.IH [of "import_frame sname stp st fr"] obtain r2 where
    r2: "im_trace (foldl (import_frame sname stp) (import_frame sname stp st fr) frs)
         = im_trace (import_frame sname stp st fr) @ r2" "list_all is_results_write r2" by blast
  from r1 r2 have "im_trace (foldl (import_frame sname stp) st (fr # frs)) = im_trace st @ (r1 @ r2)"
    "list_all is_results_write (r1 @ r2)" by simp_all
  then show ?case by blast
qed

lemma import_step_trace:
  "\<exists>r. im_trace (import_step st s) = im_trace st @ r \<and> list_all is_results_write r"
proof -
  let ?st1 = "st\<lparr>im_trace := im_trace st
                     @ [EvStep (length (im_trace st)) (sj_name s) TIME (max (last_frame_value s) 0)],
                   step_objs := (step_objs st)(sj_name s \<mapsto> length (im_trace st))\<rparr>"
  from import_frames_trace [of "sj_name s" "length (im_trace st)" ?st1
      "case sj_frames s of None \<Rightarrow> [] | Some frs \<Rightarrow> frs"]
  obtain r where r: "im_trace (import_step st s) = im_trace ?st1 @ r" "list_all is_results_write r"
    by (auto simp: import_step_def Let_def)
  then have "im_trace (import_step st s)
      = im_trace st @ (EvStep (length (im_trace st)) (sj_name s) TIME (max (last_frame_value s) 0) # r)"
    "list_all is_results_write (EvStep (length (im_trace st)) (sj_name s) TIME (max (last_frame_value s) 0) # r)"
    by simp_all
  then show ?thesis by blast
qed

lemma import_steps_trace:
  "\<exists>r. im_trace (foldl import_step st steps) = im_trace st @ r \<and> list_all is_results_write r"
proof (induction steps arbitrary: st)
  case Nil
  then show ?case by simp
next
  case (Cons s steps)
  from import_step_trace [of st s] obtain r1 where
    r1: "im_trace (import_step st s) = im_trace st @ r1" "list_all is_results_write r1" by blast
  from Cons.IH [of "import_step st s"] obtain r2 where
    r2: "im_trace (foldl import_step (import_step st s) steps) = im_trace (import_step st s) @ r2"
      "list_all is_results_write r2" by blast
  from r1 r2 have "im_trace (foldl import_step st (s # steps)) = im_trace st @ (r1 @ r2)"
    "list_all is_results_write (r1 @ r2)" by simp_all
  then show ?case by blast
qed

lemma get_or_make_frame_trace:
  assumes "get_or_make_frame st r = Inr (fobj, st')"
  shows "\<exists>w. im_trace st' = im_trace st @ w \<and> list_all is_results_write w"
  using assms by (auto simp: get_or_make_frame_def Let_def split: option.splits)

lemma get_or_make_fo_trace:
  assumes "get_or_make_fo st fkey fobj = (fo, st')"
  shows "\<exists>w. im_trace st' = im_trace st @ w \<and> list_all is_results_write w"
  using assms by (auto simp: get_or_make_fo_def Let_def split: option.splits)

lemma get_or_make_sp_trace:
  assumes "get_or_make_sp st sp = (sp_obj, st')"
  shows "\<exists>w. im_trace st' = im_trace st @ w \<and> list_all is_results_write w"
  using assms by (auto simp: get_or_make_sp_def Let_def split: option.splits)

lemma write_record_trace:
  "\<exists>w. im_trace (snd (write_record st r)) = im_trace st @ w \<and> list_all is_results_write w"
proof (cases "get_or_make_frame st r")
  case (Inl e)
  then show ?thesis by (simp add: write_record_def)
next
  case (Inr p)
  obtain fobj st1 where p: "p = (fobj, st1)" by (cases p)
  obtain fo st2 where fo: "get_or_make_fo st1 (r_step r, r_frame_index r) fobj = (fo, st2)"
    by (cases "get_or_make_fo st1 (r_step r, r_frame_index r) fobj")
  obtain sp_obj st3 where sp: "get_or_make_sp st2 (r_section_point r) = (sp_obj, st3)"
    by (cases "get_or_make_sp st2 (r_section_point r)")
  from get_or_make_frame_trace [OF Inr [unfolded p]] obtain w1 where
    w1: "im_trace st1 = im_trace st @ w1" "list_all is_results_write w1" by blast
  from get_or_make_fo_trace [OF fo] obtain w2 where
    w2: "im_trace st2 = im_trace st1 @ w2" "list_all is_results_write w2" by blast
  from get_or_make_sp_trace [OF sp] obtain w3 where
    w3: "im_trace st3 = im_trace st2 @ w3" "list_all is_results_write w3" by blast
  have t3: "im_trace st3 = im_trace st @ (w1 @ w2 @ w3)" "list_all is_results_write (w1 @ w2 @ w3)"
    using w1 w2 w3 by simp_all
  show ?thesis
  proof (cases "inst_map st3 (r_instance r)")
    case None
    with Inr p fo sp t3 show ?thesis by (auto simp: write_record_def Let_def)
  next
    case (Some inst)
    let ?ev = "\<lambda>a. EvAddData fo (pos_from_name (r_position r)) inst (r_labels r) (r_data r) a"
    have "\<exists>a. im_trace (snd (write_record st r)) = im_trace st3 @ [?ev a]"
      using Inr p fo sp Some by (auto simp: write_record_def Let_def)
    then obtain a where "im_trace (snd (write_record st r)) = im_trace st @ ((w1 @ w2 @ w3) @ [?ev a])"
      using t3 by auto
    moreover have "list_all is_results_write ((w1 @ w2 @ w3) @ [?ev a])" using t3 by simp
    ultimately show ?thesis by blast
  qed
qed

lemma write_records_trace:
  "\<exists>w. im_trace (snd (write_records st recs)) = im_trace st @ w \<and> list_all is_results_write w"
proof (induction recs arbitrary: st)
  case Nil
  then show ?case by simp
next
  case (Cons r recs)
  obtain res st' where wr: "write_record st r = (res, st')" by (cases "write_record st r")
  from write_record_trace [of st r] wr obtain w1 where
    w1: "im_trace st' = im_trace st @ w1" "list_all is_results_write w1" by auto
  show ?case
  proof (cases res)
    case None
    from Cons.IH [of st'] obtain w2 where
      w2: "im_trace (snd (write_records st' recs)) = im_trace st' @ w2" "list_all is_results_write w2"
      by blast
    from None wr w1 w2 have "im_trace (snd (write_records st (r # recs))) = im_trace st @ (w1 @ w2)"
      "list_all is_results_write (w1 @ w2)" by simp_all
    then show ?thesis by blast
  next
    case (Some e)
    with wr w1 show ?thesis by auto
  qed
qed

lemma import_main_trace:
  "\<exists>g r. im_trace (snd (import_main out_odb mesh steps recs))
          = EvOdb out_odb # g @ [EvSave, EvClose, EvOpenOdb out_odb] @ r
            @ (if fst (import_main out_odb mesh steps recs) = None then [EvSave, EvClose] else [])
        \<and> list_all is_geometry_write g \<and> list_all is_results_write r"
proof -
  from geometry_stage_trace [of out_odb mesh] obtain g where
    g: "geometry_stage out_odb mesh = EvOdb out_odb # g" "list_all is_geometry_write g" by blast
  let ?st0 = "reopen out_odb (geometry_stage out_odb mesh)"
  let ?st1 = "foldl import_step ?st0 steps"
  have t0: "im_trace ?st0 = EvOdb out_odb # g @ [EvSave, EvClose, EvOpenOdb out_odb]
      @ [EvSectionCategory ''GEN_SEC_CAT'']"
    using g by (simp add: reopen_def)
  from import_steps_trace [of ?st0 steps] obtain r1 where
    r1: "im_trace ?st1 = im_trace ?st0 @ r1" "list_all is_results_write r1" by blast
  from write_records_trace [of ?st1 recs] obtain r2 where
    r2: "im_trace (snd (write_records ?st1 recs)) = im_trace ?st1 @ r2" "list_all is_results_write r2"
    by blast
  let ?r = "EvSectionCategory ''GEN_SEC_CAT'' # r1 @ r2"
  have all: "list_all is_results_write ?r" using r1 r2 by simp
  have tr: "im_trace (snd (write_records ?st1 recs))
      = EvOdb out_odb # g @ [EvSave, EvClose, EvOpenOdb out_odb] @ ?r"
    using t0 r1 r2 by simp
  obtain res st2 where w: "write_records ?st1 recs = (res, st2)" by (cases "write_records ?st1 recs")
  have "im_trace (snd (import_main out_odb mesh steps recs))
          = EvOdb out_odb # g @ [EvSave, EvClose, EvOpenOdb out_odb] @ ?r
            @ (if fst (import_main out_odb mesh steps recs) = None then [EvSave, EvClose] else [])"
    using tr w by (cases res) (simp_all add: import_main_def Let_def)
  with g(2) all show ?thesis by blast
qed

lemma geometry_not_open: "list_all is_geometry_write g \<Longrightarrow> filter is_open_odb g = []"
proof (induction g)
  case Nil
  then show ?case by simp
next
  case (Cons e g)
  then show ?case by (cases e) simp_all
qed

lemma results_not_open: "list_all is_results_write r \<Longrightarrow> filter is_open_odb r = []"
proof (induction r)
  case Nil
  then show ?case by simp
next
  case (Cons e r)
  then show ?case by (cases e) simp_all
qed

text \<open>
  Claim C1. For every output path, mesh document, catalog and stream, the calls of the
  importer are: the creation of the store, then geometry writes only (parts, nodes,
  elements, instances), then one save, one close and the one call that opens the store
  again, then results writes only (section category, section points, steps, frames,
  field outputs, labelled data), and last, when no exception ended the run, the final
  save and close. The store is opened again exactly once, so the barrier of save,
  close and open stands exactly once, between the last geometry write and the first
  results write.
\<close>

theorem geometry_barrier_once:
  "\<exists>g r. im_trace (snd (import_main out_odb mesh steps recs))
          = EvOdb out_odb # g @ [EvSave, EvClose, EvOpenOdb out_odb] @ r
            @ (if fst (import_main out_odb mesh steps recs) = None then [EvSave, EvClose] else [])
        \<and> list_all is_geometry_write g \<and> list_all is_results_write r
        \<and> length (filter is_open_odb (im_trace (snd (import_main out_odb mesh steps recs)))) = 1"
proof -
  from import_main_trace [of out_odb mesh steps recs] obtain g r where
    t: "im_trace (snd (import_main out_odb mesh steps recs))
          = EvOdb out_odb # g @ [EvSave, EvClose, EvOpenOdb out_odb] @ r
            @ (if fst (import_main out_odb mesh steps recs) = None then [EvSave, EvClose] else [])"
    and g: "list_all is_geometry_write g" and r: "list_all is_results_write r" by blast
  have "length (filter is_open_odb (im_trace (snd (import_main out_odb mesh steps recs)))) = 1"
    unfolding t using geometry_not_open [OF g] results_not_open [OF r] by simp
  with t g r show ?thesis by blast
qed

lemma pos_from_name_ip: "pos_from_name n = INTEGRATION_POINT \<longleftrightarrow> n = ''INTEGRATION_POINT''"
  by (simp add: pos_from_name_def NODAL_def ELEMENT_NODAL_def INTEGRATION_POINT_def WHOLE_ELEMENT_def)

lemma get_or_make_frame_pre:
  assumes "get_or_make_frame st r = Inr (fobj, st')"
  shows "\<exists>w. im_trace st' = im_trace st @ w \<and> list_all (\<lambda>e. \<not> is_add_data e) w
           \<and> inst_map st' = inst_map st"
  using assms by (auto simp: get_or_make_frame_def Let_def split: option.splits)

lemma get_or_make_fo_pre:
  assumes "get_or_make_fo st fkey fobj = (fo, st')"
  shows "\<exists>w. im_trace st' = im_trace st @ w \<and> list_all (\<lambda>e. \<not> is_add_data e) w
           \<and> inst_map st' = inst_map st"
  using assms by (auto simp: get_or_make_fo_def Let_def split: option.splits)

lemma get_or_make_sp_pre:
  assumes "get_or_make_sp st sp = (sp_obj, st')"
  shows "\<exists>w. im_trace st' = im_trace st @ w \<and> list_all (\<lambda>e. \<not> is_add_data e) w
           \<and> inst_map st' = inst_map st
           \<and> (sp_obj \<noteq> None \<longleftrightarrow> sp \<noteq> None)
           \<and> sp_obj = (case sp of None \<Rightarrow> None | Some d \<Rightarrow> sp_pool st' (sp_key d))"
proof (cases sp)
  case None
  with assms show ?thesis by (simp add: get_or_make_sp_def)
next
  case (Some d)
  show ?thesis
  proof (cases "sp_pool st (sp_key d)")
    case None
    with assms Some show ?thesis by (auto simp: get_or_make_sp_def Let_def)
  next
    case (Some h)
    with assms \<open>sp = Some d\<close> have a: "sp_obj = Some h" and b: "st' = st"
      by (simp_all add: get_or_make_sp_def)
    show ?thesis unfolding a b using Some \<open>sp = Some d\<close> by simp
  qed
qed

lemma write_record_unfold:
  assumes "get_or_make_frame st r = Inr (fobj, st1)"
    and "get_or_make_fo st1 (r_step r, r_frame_index r) fobj = (fo, st2)"
    and "get_or_make_sp st2 (r_section_point r) = (sp_obj, st3)"
  shows "write_record st r =
     (case inst_map st3 (r_instance r) of
        None \<Rightarrow> (Some RuntimeError, st3)
      | Some inst \<Rightarrow>
          (None, st3\<lparr>im_trace := im_trace st3
             @ [EvAddData fo (pos_from_name (r_position r)) inst (r_labels r) (r_data r)
                  (if sp_obj \<noteq> None \<and> pos_from_name (r_position r) = INTEGRATION_POINT
                   then sp_obj else None)]\<rparr>))"
  by (simp add: write_record_def Let_def assms split: option.splits)

lemma write_record_written:
  assumes "write_record st r = (None, st')"
  shows "\<exists>pre fo inst sp_arg.
           im_trace st' = im_trace st @ pre
             @ [EvAddData fo (pos_from_name (r_position r)) inst (r_labels r) (r_data r) sp_arg]
         \<and> list_all (\<lambda>e. \<not> is_add_data e) pre
         \<and> inst_map st (r_instance r) = Some inst
         \<and> (sp_arg \<noteq> None
              \<longleftrightarrow> r_position r = ''INTEGRATION_POINT'' \<and> r_section_point r \<noteq> None)
         \<and> (sp_arg \<noteq> None
              \<longrightarrow> sp_arg = (case r_section_point r of None \<Rightarrow> None
                                | Some d \<Rightarrow> sp_pool st' (sp_key d)))"
proof (cases "get_or_make_frame st r")
  case (Inl e)
  with assms show ?thesis by (simp add: write_record_def)
next
  case (Inr p)
  obtain fobj st1 where p: "p = (fobj, st1)" by (cases p)
  obtain fo st2 where fo: "get_or_make_fo st1 (r_step r, r_frame_index r) fobj = (fo, st2)"
    by (cases "get_or_make_fo st1 (r_step r, r_frame_index r) fobj")
  obtain sp_obj st3 where sp: "get_or_make_sp st2 (r_section_point r) = (sp_obj, st3)"
    by (cases "get_or_make_sp st2 (r_section_point r)")
  note fr = Inr [unfolded p]
  note unf = write_record_unfold [OF fr fo sp]
  from get_or_make_frame_pre [OF fr] obtain w1 where
    w1: "im_trace st1 = im_trace st @ w1" "list_all (\<lambda>e. \<not> is_add_data e) w1"
      "inst_map st1 = inst_map st" by (elim exE conjE)
  from get_or_make_fo_pre [OF fo] obtain w2 where
    w2: "im_trace st2 = im_trace st1 @ w2" "list_all (\<lambda>e. \<not> is_add_data e) w2"
      "inst_map st2 = inst_map st1" by (elim exE conjE)
  from get_or_make_sp_pre [OF sp] obtain w3 where
    w3: "im_trace st3 = im_trace st2 @ w3" "list_all (\<lambda>e. \<not> is_add_data e) w3"
      "inst_map st3 = inst_map st2" "sp_obj \<noteq> None \<longleftrightarrow> r_section_point r \<noteq> None"
      "sp_obj = (case r_section_point r of None \<Rightarrow> None | Some d \<Rightarrow> sp_pool st3 (sp_key d))"
    by (elim exE conjE)
  have t3: "im_trace st3 = im_trace st @ (w1 @ w2 @ w3)"
    using w1(1) w2(1) w3(1) by simp
  have pre: "list_all (\<lambda>e. \<not> is_add_data e) (w1 @ w2 @ w3)"
    using w1(2) w2(2) w3(2) by simp
  have m3: "inst_map st3 = inst_map st" using w1(3) w2(3) w3(3) by simp
  let ?arg = "if sp_obj \<noteq> None \<and> pos_from_name (r_position r) = INTEGRATION_POINT
              then sp_obj else None"
  obtain inst where inst: "inst_map st3 (r_instance r) = Some inst"
  proof (cases "inst_map st3 (r_instance r)")
    case None
    with assms unf show ?thesis by simp
  next
    case (Some i)
    with that show ?thesis by simp
  qed
  from assms unf inst have st': "st' = st3\<lparr>im_trace := im_trace st3
      @ [EvAddData fo (pos_from_name (r_position r)) inst (r_labels r) (r_data r) ?arg]\<rparr>"
    by simp
  have tr: "im_trace st' = im_trace st @ (w1 @ w2 @ w3)
      @ [EvAddData fo (pos_from_name (r_position r)) inst (r_labels r) (r_data r) ?arg]"
    unfolding st' using t3 by simp
  have iff: "?arg \<noteq> None
      \<longleftrightarrow> r_position r = ''INTEGRATION_POINT'' \<and> r_section_point r \<noteq> None"
    using w3(4) by (simp add: pos_from_name_ip)
  have pool: "sp_pool st' = sp_pool st3" unfolding st' by simp
  have arg: "?arg \<noteq> None
      \<longrightarrow> ?arg = (case r_section_point r of None \<Rightarrow> None | Some d \<Rightarrow> sp_pool st' (sp_key d))"
    unfolding pool using w3(5) by simp
  have im: "inst_map st (r_instance r) = Some inst" using inst m3 by simp
  show ?thesis
  proof (intro exI conjI)
    show "im_trace st' = im_trace st @ (w1 @ w2 @ w3)
      @ [EvAddData fo (pos_from_name (r_position r)) inst (r_labels r) (r_data r) ?arg]"
      by (fact tr)
    show "list_all (\<lambda>e. \<not> is_add_data e) (w1 @ w2 @ w3)" by (fact pre)
    show "inst_map st (r_instance r) = Some inst" by (fact im)
    show "?arg \<noteq> None
      \<longleftrightarrow> r_position r = ''INTEGRATION_POINT'' \<and> r_section_point r \<noteq> None"
      by (fact iff)
    show "?arg \<noteq> None
      \<longrightarrow> ?arg = (case r_section_point r of None \<Rightarrow> None | Some d \<Rightarrow> sp_pool st' (sp_key d))"
      by (fact arg)
  qed
qed

text \<open>
  Claim C5. For every record of the stream that is written (\<open>write_record\<close> ends without
  an exception), the record adds exactly one call of \<open>addData\<close>, the last call made for
  it, and that call has a section point argument if and only if the position of the
  record is INTEGRATION_POINT and the record carries a section point; the argument is
  then the handle the pool holds for the key of that section point. In every other
  case the call has no section point argument.
\<close>

theorem section_point_argument:
  assumes "write_record st r = (None, st')"
  shows "\<exists>pre fo inst sp_arg.
           im_trace st' = im_trace st @ pre
             @ [EvAddData fo (pos_from_name (r_position r)) inst (r_labels r) (r_data r) sp_arg]
         \<and> list_all (\<lambda>e. \<not> is_add_data e) pre
         \<and> (sp_arg \<noteq> None
              \<longleftrightarrow> r_position r = ''INTEGRATION_POINT'' \<and> r_section_point r \<noteq> None)
         \<and> (sp_arg \<noteq> None
              \<longrightarrow> sp_arg = (case r_section_point r of None \<Rightarrow> None
                                | Some d \<Rightarrow> sp_pool st' (sp_key d)))"
proof -
  from write_record_written [OF assms] obtain pre fo inst sp_arg where
    a: "im_trace st' = im_trace st @ pre
             @ [EvAddData fo (pos_from_name (r_position r)) inst (r_labels r) (r_data r) sp_arg]"
    and b: "list_all (\<lambda>e. \<not> is_add_data e) pre"
    and c: "sp_arg \<noteq> None
              \<longleftrightarrow> r_position r = ''INTEGRATION_POINT'' \<and> r_section_point r \<noteq> None"
    and d: "sp_arg \<noteq> None
              \<longrightarrow> sp_arg = (case r_section_point r of None \<Rightarrow> None
                                | Some d \<Rightarrow> sp_pool st' (sp_key d))"
    by blast
  show ?thesis
  proof (intro exI conjI)
    show "im_trace st' = im_trace st @ pre
             @ [EvAddData fo (pos_from_name (r_position r)) inst (r_labels r) (r_data r) sp_arg]"
      by (fact a)
  qed (fact b c d)+
qed

lemma pos_from_name_unknown:
  assumes "n \<noteq> ''NODAL''" "n \<noteq> ''ELEMENT_NODAL''" "n \<noteq> ''INTEGRATION_POINT''" "n \<noteq> ''WHOLE_ELEMENT''"
  shows "pos_from_name n = NODAL"
  using assms by (simp add: pos_from_name_def)

lemma get_or_make_frame_position:
  "get_or_make_frame st (r\<lparr>r_position := n\<rparr>) = get_or_make_frame st r"
  by (simp add: get_or_make_frame_def Let_def split: option.splits)

lemma write_record_position:
  assumes "pos_from_name n = pos_from_name (r_position r)"
  shows "write_record st (r\<lparr>r_position := n\<rparr>) = write_record st r"
proof (cases "get_or_make_frame st r")
  case (Inl e)
  then show ?thesis by (simp add: write_record_def get_or_make_frame_position)
next
  case (Inr p)
  obtain fobj st1 where p: "p = (fobj, st1)" by (cases p)
  obtain fo st2 where fo: "get_or_make_fo st1 (r_step r, r_frame_index r) fobj = (fo, st2)"
    by (cases "get_or_make_fo st1 (r_step r, r_frame_index r) fobj")
  obtain sp_obj st3 where sp: "get_or_make_sp st2 (r_section_point r) = (sp_obj, st3)"
    by (cases "get_or_make_sp st2 (r_section_point r)")
  note fr = Inr [unfolded p]
  let ?r' = "r\<lparr>r_position := n\<rparr>"
  have fr': "get_or_make_frame st ?r' = Inr (fobj, st1)"
    using fr by (simp add: get_or_make_frame_position)
  have fo': "get_or_make_fo st1 (r_step ?r', r_frame_index ?r') fobj = (fo, st2)"
    using fo by simp
  have sp': "get_or_make_sp st2 (r_section_point ?r') = (sp_obj, st3)"
    using sp by simp
  show ?thesis
    unfolding write_record_unfold [OF fr fo sp] write_record_unfold [OF fr' fo' sp']
    using assms by (simp cong: option.case_cong)
qed

lemma write_record_failed:
  assumes "fst (write_record st r) \<noteq> None"
  shows "step_objs st (r_step r) = None \<and> frame_objs st (r_step r, r_frame_index r) = None
       \<or> inst_map st (r_instance r) = None"
proof (cases "get_or_make_frame st r")
  case (Inl e)
  then show ?thesis by (auto simp: get_or_make_frame_def Let_def split: option.splits)
next
  case (Inr p)
  obtain fobj st1 where p: "p = (fobj, st1)" by (cases p)
  obtain fo st2 where fo: "get_or_make_fo st1 (r_step r, r_frame_index r) fobj = (fo, st2)"
    by (cases "get_or_make_fo st1 (r_step r, r_frame_index r) fobj")
  obtain sp_obj st3 where sp: "get_or_make_sp st2 (r_section_point r) = (sp_obj, st3)"
    by (cases "get_or_make_sp st2 (r_section_point r)")
  from get_or_make_frame_pre [OF Inr [unfolded p]] get_or_make_fo_pre [OF fo]
    get_or_make_sp_pre [OF sp]
  have m: "inst_map st3 = inst_map st" by auto
  show ?thesis
  proof (cases "inst_map st3 (r_instance r)")
    case None
    with m show ?thesis by simp
  next
    case (Some inst)
    with assms Inr p fo sp show ?thesis by (simp add: write_record_def Let_def split: if_splits)
  qed
qed

text \<open>
  Claim C8. For every position string \<open>n\<close> that is none of NODAL, ELEMENT_NODAL,
  INTEGRATION_POINT and WHOLE_ELEMENT, \<open>pos_from_name\<close> returns the NODAL constant and
  the record is treated exactly as the same record with the position NODAL: when it is
  written, its data is added at the NODAL position with no section point argument, and
  when an exception is raised, it is because the step and frame or the instance are
  missing, never because of the position.
\<close>

theorem unknown_position_written_as_nodal:
  assumes "n \<noteq> ''NODAL''" "n \<noteq> ''ELEMENT_NODAL''" "n \<noteq> ''INTEGRATION_POINT''" "n \<noteq> ''WHOLE_ELEMENT''"
  shows "pos_from_name n = NODAL
       \<and> write_record st (r\<lparr>r_position := n\<rparr>) = write_record st (r\<lparr>r_position := ''NODAL''\<rparr>)
       \<and> (fst (write_record st (r\<lparr>r_position := n\<rparr>)) = None
            \<longrightarrow> (\<exists>fo inst. last (im_trace (snd (write_record st (r\<lparr>r_position := n\<rparr>))))
                     = EvAddData fo NODAL inst (r_labels r) (r_data r) None))
       \<and> (fst (write_record st (r\<lparr>r_position := n\<rparr>)) \<noteq> None
            \<longrightarrow> step_objs st (r_step r) = None \<and> frame_objs st (r_step r, r_frame_index r) = None
               \<or> inst_map st (r_instance r) = None)"
proof -
  have nodal: "pos_from_name n = NODAL" using assms by (rule pos_from_name_unknown)
  have "pos_from_name ''NODAL'' = NODAL" by (simp add: pos_from_name_def)
  with nodal have eq: "write_record st (r\<lparr>r_position := n\<rparr>) = write_record st (r\<lparr>r_position := ''NODAL''\<rparr>)"
    using write_record_position [of n "r\<lparr>r_position := ''NODAL''\<rparr>" st] by simp
  have written: "\<exists>fo inst. last (im_trace (snd (write_record st (r\<lparr>r_position := n\<rparr>))))
                     = EvAddData fo NODAL inst (r_labels r) (r_data r) None"
    if "fst (write_record st (r\<lparr>r_position := n\<rparr>)) = None"
  proof -
    from that have w: "write_record st (r\<lparr>r_position := n\<rparr>)
        = (None, snd (write_record st (r\<lparr>r_position := n\<rparr>)))"
      by (metis prod.collapse)
    from write_record_written [OF w] obtain pre fo inst sp_arg where
      t: "im_trace (snd (write_record st (r\<lparr>r_position := n\<rparr>))) = im_trace st @ pre
             @ [EvAddData fo (pos_from_name n) inst (r_labels r) (r_data r) sp_arg]"
      and a: "sp_arg \<noteq> None \<longleftrightarrow> n = ''INTEGRATION_POINT'' \<and> r_section_point r \<noteq> None"
      by auto
    from a assms(3) have "sp_arg = None" by simp
    with t nodal show ?thesis by simp
  qed
  have failed: "step_objs st (r_step r) = None \<and> frame_objs st (r_step r, r_frame_index r) = None
               \<or> inst_map st (r_instance r) = None"
    if "fst (write_record st (r\<lparr>r_position := n\<rparr>)) \<noteq> None"
    using write_record_failed [OF that] by simp
  from nodal eq written failed show ?thesis by blast
qed

lemma import_step_domain: "import_step st (s\<lparr>sj_domain := d\<rparr>) = import_step st s"
  by (simp add: import_step_def last_frame_value_def)

lemma import_steps_domain:
  "foldl import_step st (map (\<lambda>s. s\<lparr>sj_domain := d s\<rparr>) steps) = foldl import_step st steps"
  by (induction steps arbitrary: st) (simp_all add: import_step_domain)

lemma import_step_first_event:
  "\<exists>r. im_trace (import_step st s)
        = im_trace st @ EvStep (length (im_trace st)) (sj_name s) TIME (max (last_frame_value s) 0) # r"
proof -
  let ?st1 = "st\<lparr>im_trace := im_trace st
                     @ [EvStep (length (im_trace st)) (sj_name s) TIME (max (last_frame_value s) 0)],
                   step_objs := (step_objs st)(sj_name s \<mapsto> length (im_trace st))\<rparr>"
  from import_frames_trace [of "sj_name s" "length (im_trace st)" ?st1
      "case sj_frames s of None \<Rightarrow> [] | Some frs \<Rightarrow> frs"]
  show ?thesis by (auto simp: import_step_def Let_def)
qed

text \<open>
  Claim C9. For every step record of the catalog, whatever its domain field holds, the
  first call of \<open>import_step\<close> creates the step with the TIME domain; replacing the
  domain field of the record changes nothing in what \<open>import_step\<close> does, and replacing
  the domain fields of all the records of the catalog changes nothing in the whole run.
\<close>

theorem step_domain_always_time:
  "(\<exists>r. im_trace (import_step st (s\<lparr>sj_domain := d\<rparr>))
        = im_trace st @ EvStep (length (im_trace st)) (sj_name s) TIME (max (last_frame_value s) 0) # r)
   \<and> import_step st (s\<lparr>sj_domain := d\<rparr>) = import_step st s
   \<and> import_main out_odb mesh (map (\<lambda>s. s\<lparr>sj_domain := f s\<rparr>) steps) recs
       = import_main out_odb mesh steps recs"
proof -
  have a: "import_step st (s\<lparr>sj_domain := d\<rparr>) = import_step st s"
    by (rule import_step_domain)
  have b: "import_main out_odb mesh (map (\<lambda>s. s\<lparr>sj_domain := f s\<rparr>) steps) recs
       = import_main out_odb mesh steps recs"
    unfolding import_main_def import_steps_domain ..
  from import_step_first_event [of st s] a b show ?thesis by simp
qed

lemma pool_created_extend:
  assumes "pool_created st" and "sp_pool st' = sp_pool st" and "im_trace st' = im_trace st @ w"
  shows "pool_created st'"
  using assms by (auto simp: pool_created_def)

lemma pool_created_reopen: "pool_created (reopen out_odb tr)"
  by (simp add: pool_created_def reopen_def)

lemma import_frames_pool:
  "sp_pool (foldl (import_frame sname stp) st frs) = sp_pool st"
  by (induction frs arbitrary: st) (simp_all add: import_frame_def Let_def)

lemma import_step_pool: "sp_pool (import_step st s) = sp_pool st"
  by (simp add: import_step_def Let_def import_frames_pool)

lemma pool_created_import_steps:
  "pool_created st \<Longrightarrow> pool_created (foldl import_step st steps)"
proof (induction steps arbitrary: st)
  case Nil
  then show ?case by simp
next
  case (Cons s steps)
  from import_step_trace [of st s] obtain r where
    "im_trace (import_step st s) = im_trace st @ r" by blast
  from pool_created_extend [OF Cons.prems import_step_pool this]
  have "pool_created (import_step st s)" .
  from Cons.IH [OF this] show ?case by simp
qed

lemma get_or_make_frame_pool:
  assumes "get_or_make_frame st r = Inr (fobj, st')"
  shows "sp_pool st' = sp_pool st"
  using assms by (auto simp: get_or_make_frame_def Let_def split: option.splits)

lemma get_or_make_fo_pool:
  assumes "get_or_make_fo st fkey fobj = (fo, st')"
  shows "sp_pool st' = sp_pool st"
  using assms by (auto simp: get_or_make_fo_def Let_def split: option.splits)

lemma get_or_make_sp_created:
  assumes "pool_created st" and "get_or_make_sp st (Some x) = (h, st1)"
  shows "\<exists>sp_obj. h = Some sp_obj \<and> sp_pool st1 (sp_key x) = Some sp_obj
           \<and> EvSectionPoint sp_obj (fst (sp_key x)) (snd (sp_key x)) \<in> set (im_trace st1)
           \<and> pool_created st1
           \<and> (sp_pool st (sp_key x) = None
                \<longrightarrow> sp_obj = length (im_trace st)
                  \<and> im_trace st1 = im_trace st
                       @ [EvSectionPoint sp_obj (fst (sp_key x)) (snd (sp_key x))])
           \<and> (sp_pool st (sp_key x) \<noteq> None \<longrightarrow> st1 = st)"
proof (cases "sp_pool st (sp_key x)")
  case None
  let ?h = "length (im_trace st)"
  from assms(2) None have h: "h = Some ?h"
    and st1: "st1 = st\<lparr>im_trace := im_trace st
                  @ [EvSectionPoint ?h (fst (sp_key x)) (snd (sp_key x))],
                sp_pool := (sp_pool st)(sp_key x \<mapsto> ?h)\<rparr>"
    by (auto simp: get_or_make_sp_def Let_def)
  have tr: "im_trace st1 = im_trace st @ [EvSectionPoint ?h (fst (sp_key x)) (snd (sp_key x))]"
    and pool: "sp_pool st1 = (sp_pool st)(sp_key x \<mapsto> ?h)"
    unfolding st1 by simp_all
  have pc: "pool_created st1"
    unfolding pool_created_def
  proof (intro allI impI)
    fix num desc k assume a: "sp_pool st1 (num, desc) = Some k"
    show "EvSectionPoint k num desc \<in> set (im_trace st1)"
    proof (cases "(num, desc) = sp_key x")
      case True
      with a pool have "k = ?h" by simp
      moreover from True [symmetric] have "fst (sp_key x) = num" "snd (sp_key x) = desc"
        by simp_all
      ultimately show ?thesis unfolding tr by simp
    next
      case False
      with a pool have "sp_pool st (num, desc) = Some k" by simp
      with assms(1) have "EvSectionPoint k num desc \<in> set (im_trace st)"
        by (simp add: pool_created_def)
      with tr show ?thesis by simp
    qed
  qed
  from h tr pool pc None show ?thesis by simp
next
  case (Some k)
  with assms(2) have h: "h = Some k" and st1: "st1 = st"
    by (simp_all add: get_or_make_sp_def)
  obtain num desc where key: "sp_key x = (num, desc)" by (cases "sp_key x")
  with Some assms(1) have "EvSectionPoint k num desc \<in> set (im_trace st)"
    by (simp add: pool_created_def)
  with h st1 Some key assms(1) show ?thesis by simp
qed

lemma get_or_make_sp_pool_created:
  assumes "pool_created st" and "get_or_make_sp st sp = (h, st1)"
  shows "pool_created st1"
proof (cases sp)
  case None
  with assms show ?thesis by (simp add: get_or_make_sp_def)
next
  case (Some x)
  with get_or_make_sp_created [OF assms(1), of x h st1] assms(2) show ?thesis by blast
qed

lemma write_record_pool_created:
  assumes "pool_created st"
  shows "pool_created (snd (write_record st r))"
proof (cases "get_or_make_frame st r")
  case (Inl e)
  with assms show ?thesis by (simp add: write_record_def)
next
  case (Inr p)
  obtain fobj st1 where p: "p = (fobj, st1)" by (cases p)
  obtain fo st2 where fo: "get_or_make_fo st1 (r_step r, r_frame_index r) fobj = (fo, st2)"
    by (cases "get_or_make_fo st1 (r_step r, r_frame_index r) fobj")
  obtain sp_obj st3 where sp: "get_or_make_sp st2 (r_section_point r) = (sp_obj, st3)"
    by (cases "get_or_make_sp st2 (r_section_point r)")
  note fr = Inr [unfolded p]
  from get_or_make_frame_trace [OF fr] obtain w1 where w1: "im_trace st1 = im_trace st @ w1"
    by blast
  from pool_created_extend [OF assms get_or_make_frame_pool [OF fr] w1]
  have c1: "pool_created st1" .
  from get_or_make_fo_trace [OF fo] obtain w2 where w2: "im_trace st2 = im_trace st1 @ w2"
    by blast
  from pool_created_extend [OF c1 get_or_make_fo_pool [OF fo] w2]
  have c2: "pool_created st2" .
  from get_or_make_sp_pool_created [OF c2 sp] have c3: "pool_created st3" .
  show ?thesis
  proof (cases "inst_map st3 (r_instance r)")
    case None
    with c3 show ?thesis unfolding write_record_unfold [OF fr fo sp] by simp
  next
    case (Some inst)
    have "pool_created (st3\<lparr>im_trace := im_trace st3 @ [e]\<rparr>)" for e
      using pool_created_extend [OF c3, of "st3\<lparr>im_trace := im_trace st3 @ [e]\<rparr>" "[e]"]
      by simp
    with Some show ?thesis unfolding write_record_unfold [OF fr fo sp] by simp
  qed
qed

lemma write_records_pool_created:
  "pool_created st \<Longrightarrow> pool_created (snd (write_records st recs))"
proof (induction recs arbitrary: st)
  case Nil
  then show ?case by simp
next
  case (Cons r recs)
  obtain res st' where w: "write_record st r = (res, st')" by (cases "write_record st r")
  from write_record_pool_created [OF Cons.prems, of r] w have c: "pool_created st'" by simp
  show ?case
  proof (cases res)
    case None
    with w Cons.IH [OF c] show ?thesis by simp
  next
    case (Some e)
    with w c show ?thesis by simp
  qed
qed

lemma get_or_make_sp_hit:
  assumes "sp_pool st (sp_key y) = Some k"
  shows "get_or_make_sp st (Some y) = (Some k, st)"
  using assms by (simp add: get_or_make_sp_def)

text \<open>
  Claim C10. A section point whose number is \<open>null\<close> or missing has the number 1 in its
  key of the pool. So when \<open>a\<close> has no number, \<open>b\<close> has the number 1 and both have the same
  description, both have the key made of 1 and that description. In a state whose pool
  holds only handles of created section points, whichever of the two is resolved first,
  the result is the handle of a section point created with the number 1 and that
  description, the pool holds it under that key, and the other of the two resolves to
  the same handle and changes nothing. When the pool had no entry for the key, the
  first call is the one that creates the section point, as its next call on the store;
  when it had one, the first call changes nothing either. Every state the results stage
  reaches has such a pool.
\<close>

theorem null_number_is_section_point_one:
  assumes "pj_number a = IsNone \<or> pj_number a = Missing" and "pj_number b = Has 1"
    and "pj_description a = pj_description b" and "pool_created st"
  shows "sp_key a = (1, snd (sp_key b)) \<and> sp_key b = (1, snd (sp_key b))
       \<and> (\<forall>x y. (x = a \<and> y = b \<or> x = b \<and> y = a) \<and> get_or_make_sp st (Some x) = (h, st1)
            \<longrightarrow> (\<exists>sp_obj. h = Some sp_obj
                   \<and> sp_pool st1 (1, snd (sp_key b)) = Some sp_obj
                   \<and> EvSectionPoint sp_obj 1 (snd (sp_key b)) \<in> set (im_trace st1)
                   \<and> get_or_make_sp st1 (Some y) = (Some sp_obj, st1)
                   \<and> pool_created st1
                   \<and> (sp_pool st (1, snd (sp_key b)) = None
                        \<longrightarrow> sp_obj = length (im_trace st)
                          \<and> im_trace st1 = im_trace st
                               @ [EvSectionPoint sp_obj 1 (snd (sp_key b))])
                   \<and> (sp_pool st (1, snd (sp_key b)) \<noteq> None \<longrightarrow> st1 = st)))
       \<and> pool_created (snd (write_records (foldl import_step (reopen out_odb tr) steps) recs))"
proof -
  from assms(1,2,3) have ka: "sp_key a = (1, snd (sp_key b))" and kb: "sp_key b = (1, snd (sp_key b))"
    by (auto simp: sp_key_def)
  have pair: "\<exists>sp_obj. h = Some sp_obj
                   \<and> sp_pool st1 (1, snd (sp_key b)) = Some sp_obj
                   \<and> EvSectionPoint sp_obj 1 (snd (sp_key b)) \<in> set (im_trace st1)
                   \<and> get_or_make_sp st1 (Some y) = (Some sp_obj, st1)
                   \<and> pool_created st1
                   \<and> (sp_pool st (1, snd (sp_key b)) = None
                        \<longrightarrow> sp_obj = length (im_trace st)
                          \<and> im_trace st1 = im_trace st
                               @ [EvSectionPoint sp_obj 1 (snd (sp_key b))])
                   \<and> (sp_pool st (1, snd (sp_key b)) \<noteq> None \<longrightarrow> st1 = st)"
    if kx: "sp_key x = (1, snd (sp_key b))" and ky: "sp_key y = (1, snd (sp_key b))"
      and g: "get_or_make_sp st (Some x) = (h, st1)" for x y
  proof -
    from get_or_make_sp_created [OF assms(4) g] obtain sp_obj where
      c: "h = Some sp_obj" "sp_pool st1 (sp_key x) = Some sp_obj"
        "EvSectionPoint sp_obj (fst (sp_key x)) (snd (sp_key x)) \<in> set (im_trace st1)"
        "pool_created st1"
        "sp_pool st (sp_key x) = None
                \<longrightarrow> sp_obj = length (im_trace st)
                  \<and> im_trace st1 = im_trace st
                       @ [EvSectionPoint sp_obj (fst (sp_key x)) (snd (sp_key x))]"
        "sp_pool st (sp_key x) \<noteq> None \<longrightarrow> st1 = st"
      by (elim exE conjE)
    from c(2) kx ky have "sp_pool st1 (sp_key y) = Some sp_obj" by simp
    from get_or_make_sp_hit [OF this] have again: "get_or_make_sp st1 (Some y) = (Some sp_obj, st1)" .
    show ?thesis
    proof (intro exI conjI)
      show "h = Some sp_obj" by (fact c(1))
      show "sp_pool st1 (1, snd (sp_key b)) = Some sp_obj" using c(2) kx by simp
      show "EvSectionPoint sp_obj 1 (snd (sp_key b)) \<in> set (im_trace st1)" using c(3) kx by simp
      show "get_or_make_sp st1 (Some y) = (Some sp_obj, st1)" by (fact again)
      show "pool_created st1" by (fact c(4))
      show "sp_pool st (1, snd (sp_key b)) = None
                        \<longrightarrow> sp_obj = length (im_trace st)
                          \<and> im_trace st1 = im_trace st
                               @ [EvSectionPoint sp_obj 1 (snd (sp_key b))]"
        using c(5) kx by simp
      show "sp_pool st (1, snd (sp_key b)) \<noteq> None \<longrightarrow> st1 = st" using c(6) kx by simp
    qed
  qed
  have reach: "pool_created (snd (write_records (foldl import_step (reopen out_odb tr) steps) recs))"
    by (intro write_records_pool_created pool_created_import_steps pool_created_reopen)
  show ?thesis
  proof (intro conjI allI impI)
    show "sp_key a = (1, snd (sp_key b))" by (fact ka)
    show "sp_key b = (1, snd (sp_key b))" by (fact kb)
    show "pool_created (snd (write_records (foldl import_step (reopen out_odb tr) steps) recs))"
      by (fact reach)
  next
    fix x y
    assume p: "(x = a \<and> y = b \<or> x = b \<and> y = a) \<and> get_or_make_sp st (Some x) = (h, st1)"
    then have g: "get_or_make_sp st (Some x) = (h, st1)" by (elim conjE)
    from p have xy: "x = a \<and> y = b \<or> x = b \<and> y = a" by (elim conjE)
    have "sp_key x = (1, snd (sp_key b))" "sp_key y = (1, snd (sp_key b))"
      using xy ka kb by (elim disjE conjE, simp_all)+
    from pair [OF this g]
    show "\<exists>sp_obj. h = Some sp_obj
                   \<and> sp_pool st1 (1, snd (sp_key b)) = Some sp_obj
                   \<and> EvSectionPoint sp_obj 1 (snd (sp_key b)) \<in> set (im_trace st1)
                   \<and> get_or_make_sp st1 (Some y) = (Some sp_obj, st1)
                   \<and> pool_created st1
                   \<and> (sp_pool st (1, snd (sp_key b)) = None
                        \<longrightarrow> sp_obj = length (im_trace st)
                          \<and> im_trace st1 = im_trace st
                               @ [EvSectionPoint sp_obj 1 (snd (sp_key b))])
                   \<and> (sp_pool st (1, snd (sp_key b)) \<noteq> None \<longrightarrow> st1 = st)" .
  qed
qed

section \<open>Runs on the small store, and the store handle\<close>

lemmas import_defs = import_main_def reopen_def geometry_stage_def build_instance_def group_add_def
  setdefault_def dict_modify_def import_step_def import_frame_def last_frame_value_def
  write_record_def get_or_make_frame_def get_or_make_fo_def get_or_make_sp_def sp_key_def
  pos_from_name_def Let_def NODAL_def INTEGRATION_POINT_def ELEMENT_NODAL_def WHOLE_ELEMENT_def

lemmas sample_import_defs = sample_mesh_def sample_steps_def sample_rec_nodal_def sample_rec_ip_def
  sample_rec_late_def sample_rec_no_step_def sample_rec_no_instance_def sample_state_def



lemma sample_nodal_ok: "fst (write_record sample_state sample_rec_nodal) = None"
  by (simp add: import_defs sample_import_defs)

lemma sample_ip_ok: "fst (write_record sample_state sample_rec_ip) = None"
  by (simp add: import_defs sample_import_defs)

lemma sample_run_ok:
  "fst (import_main ''out.odb'' sample_mesh sample_steps
          [sample_rec_nodal, sample_rec_ip, sample_rec_late]) = None"
  by (simp add: import_defs sample_import_defs)


theorem geometry_barrier_once_witness:
  "\<exists>g r. im_trace (snd (import_main ''out.odb'' sample_mesh sample_steps
                  [sample_rec_nodal, sample_rec_ip, sample_rec_late]))
          = EvOdb ''out.odb'' # g @ [EvSave, EvClose, EvOpenOdb ''out.odb''] @ r @ [EvSave, EvClose]
        \<and> list_all is_geometry_write g \<and> list_all is_results_write r
        \<and> length (filter is_open_odb (im_trace (snd (import_main ''out.odb'' sample_mesh
                  sample_steps [sample_rec_nodal, sample_rec_ip, sample_rec_late])))) = 1"
  using geometry_barrier_once [of "''out.odb''" sample_mesh sample_steps
      "[sample_rec_nodal, sample_rec_ip, sample_rec_late]"]
  by (simp add: sample_run_ok)

theorem section_point_argument_witness:
  "write_record sample_state sample_rec_ip = (None, snd (write_record sample_state sample_rec_ip))
   \<and> write_record sample_state sample_rec_nodal
       = (None, snd (write_record sample_state sample_rec_nodal))
   \<and> (\<exists>pre fo inst sp_arg.
         im_trace (snd (write_record sample_state sample_rec_ip)) = im_trace sample_state @ pre
           @ [EvAddData fo INTEGRATION_POINT inst [1, 2] [[30], [31]] sp_arg]
         \<and> sp_arg \<noteq> None)
   \<and> (\<exists>pre fo inst.
         im_trace (snd (write_record sample_state sample_rec_nodal)) = im_trace sample_state @ pre
           @ [EvAddData fo NODAL inst [1, 2] [[20], [21]] None])"
proof -
  have ip: "write_record sample_state sample_rec_ip
      = (None, snd (write_record sample_state sample_rec_ip))"
    using sample_ip_ok by (metis prod.collapse)
  have nodal: "write_record sample_state sample_rec_nodal
      = (None, snd (write_record sample_state sample_rec_nodal))"
    using sample_nodal_ok by (metis prod.collapse)
  have f: "r_position sample_rec_ip = ''INTEGRATION_POINT''" "r_section_point sample_rec_ip \<noteq> None"
    "r_labels sample_rec_ip = [1, 2]" "r_data sample_rec_ip = [[30], [31]]"
    "r_position sample_rec_nodal = ''NODAL''" "r_section_point sample_rec_nodal = None"
    "r_labels sample_rec_nodal = [1, 2]" "r_data sample_rec_nodal = [[20], [21]]"
    "pos_from_name ''INTEGRATION_POINT'' = INTEGRATION_POINT" "pos_from_name ''NODAL'' = NODAL"
    by (simp_all add: sample_rec_ip_def sample_rec_nodal_def pos_from_name_def)
  from section_point_argument [OF ip] obtain pre fo inst sp_arg where
    t: "im_trace (snd (write_record sample_state sample_rec_ip)) = im_trace sample_state @ pre
           @ [EvAddData fo (pos_from_name (r_position sample_rec_ip)) inst
                (r_labels sample_rec_ip) (r_data sample_rec_ip) sp_arg]"
    and i: "sp_arg \<noteq> None \<longleftrightarrow> r_position sample_rec_ip = ''INTEGRATION_POINT''
              \<and> r_section_point sample_rec_ip \<noteq> None"
    by blast
  from i f have "sp_arg \<noteq> None" by simp
  with t f have a: "\<exists>pre fo inst sp_arg.
         im_trace (snd (write_record sample_state sample_rec_ip)) = im_trace sample_state @ pre
           @ [EvAddData fo INTEGRATION_POINT inst [1, 2] [[30], [31]] sp_arg]
         \<and> sp_arg \<noteq> None"
    by auto
  from section_point_argument [OF nodal] obtain pre' fo' inst' sp_arg' where
    t': "im_trace (snd (write_record sample_state sample_rec_nodal)) = im_trace sample_state @ pre'
           @ [EvAddData fo' (pos_from_name (r_position sample_rec_nodal)) inst'
                (r_labels sample_rec_nodal) (r_data sample_rec_nodal) sp_arg']"
    and i': "sp_arg' \<noteq> None \<longleftrightarrow> r_position sample_rec_nodal = ''INTEGRATION_POINT''
              \<and> r_section_point sample_rec_nodal \<noteq> None"
    by blast
  from i' f have "sp_arg' = None" by simp
  with t' f have b: "\<exists>pre fo inst.
         im_trace (snd (write_record sample_state sample_rec_nodal)) = im_trace sample_state @ pre
           @ [EvAddData fo NODAL inst [1, 2] [[20], [21]] None]"
    by auto
  from ip nodal a b show ?thesis by blast
qed

theorem unknown_position_written_as_nodal_witness:
  "''CENTROID'' \<noteq> ''NODAL'' \<and> ''CENTROID'' \<noteq> ''ELEMENT_NODAL''
   \<and> ''CENTROID'' \<noteq> ''INTEGRATION_POINT'' \<and> ''CENTROID'' \<noteq> ''WHOLE_ELEMENT''
   \<and> pos_from_name ''CENTROID'' = NODAL
   \<and> write_record sample_state (sample_rec_nodal\<lparr>r_position := ''CENTROID''\<rparr>)
       = write_record sample_state (sample_rec_nodal\<lparr>r_position := ''NODAL''\<rparr>)
   \<and> fst (write_record sample_state (sample_rec_nodal\<lparr>r_position := ''CENTROID''\<rparr>)) = None
   \<and> (\<exists>fo inst. last (im_trace (snd (write_record sample_state
                       (sample_rec_nodal\<lparr>r_position := ''CENTROID''\<rparr>))))
         = EvAddData fo NODAL inst (r_labels sample_rec_nodal) (r_data sample_rec_nodal) None)"
proof -
  have h: "''CENTROID'' \<noteq> ''NODAL''" "''CENTROID'' \<noteq> ''ELEMENT_NODAL''"
    "''CENTROID'' \<noteq> ''INTEGRATION_POINT''" "''CENTROID'' \<noteq> ''WHOLE_ELEMENT''"
    by simp_all
  have same: "sample_rec_nodal\<lparr>r_position := ''NODAL''\<rparr> = sample_rec_nodal"
    by (simp add: sample_rec_nodal_def)
  note t = unknown_position_written_as_nodal [OF h, of sample_state sample_rec_nodal]
  from t have eq: "write_record sample_state (sample_rec_nodal\<lparr>r_position := ''CENTROID''\<rparr>)
       = write_record sample_state (sample_rec_nodal\<lparr>r_position := ''NODAL''\<rparr>)"
    by (elim conjE)
  then have ok: "fst (write_record sample_state (sample_rec_nodal\<lparr>r_position := ''CENTROID''\<rparr>)) = None"
    using sample_nodal_ok same by simp
  with t h eq show ?thesis by blast
qed

theorem step_domain_always_time_witness:
  "(\<exists>r. im_trace (import_step sample_state
             \<lparr>sj_name = ''Second'', sj_domain = Some ''FREQUENCY'', sj_frames = None\<rparr>)
        = im_trace sample_state @ EvStep 11 ''Second'' TIME 0 # r)
   \<and> import_main ''out.odb'' sample_mesh
        (map (\<lambda>s. s\<lparr>sj_domain := Some ''FREQUENCY''\<rparr>) sample_steps) [sample_rec_nodal]
       = import_main ''out.odb'' sample_mesh sample_steps [sample_rec_nodal]"
proof -
  have len: "length (im_trace sample_state) = 11"
    by (simp add: import_defs sample_import_defs)
  have l: "max (last_frame_value \<lparr>sj_name = ''Second'', sj_domain = None, sj_frames = None\<rparr>) 0 = 0"
    by (simp add: last_frame_value_def)
  note t = step_domain_always_time [where st = sample_state
      and s = "\<lparr>sj_name = ''Second'', sj_domain = None, sj_frames = None\<rparr>"
      and d = "Some ''FREQUENCY''" and out_odb = "''out.odb''" and mesh = sample_mesh
      and f = "\<lambda>s. Some ''FREQUENCY''" and steps = sample_steps and recs = "[sample_rec_nodal]"]
  from t [THEN conjunct1] have a: "\<exists>r. im_trace (import_step sample_state
             \<lparr>sj_name = ''Second'', sj_domain = Some ''FREQUENCY'', sj_frames = None\<rparr>)
        = im_trace sample_state @ EvStep 11 ''Second'' TIME 0 # r"
    unfolding len l by simp
  from t [THEN conjunct2, THEN conjunct2] have b: "import_main ''out.odb'' sample_mesh
        (map (\<lambda>s. s\<lparr>sj_domain := Some ''FREQUENCY''\<rparr>) sample_steps) [sample_rec_nodal]
       = import_main ''out.odb'' sample_mesh sample_steps [sample_rec_nodal]" .
  from a b show ?thesis by (rule conjI)
qed

lemma sample_state_pool: "sp_pool sample_state = Map.empty"
  by (simp add: sample_state_def sample_steps_def import_step_pool reopen_def)

lemma sample_state_length: "length (im_trace sample_state) = 11"
  by (simp add: import_defs sample_import_defs)

theorem null_number_is_section_point_one_witness:
  "(pj_number sample_sp_null = IsNone \<or> pj_number sample_sp_null = Missing)
   \<and> pj_number sample_sp_one = Has 1
   \<and> pj_description sample_sp_null = pj_description sample_sp_one
   \<and> pool_created sample_state
   \<and> sp_key sample_sp_null = (1, ''Top'') \<and> sp_key sample_sp_one = (1, ''Top'')
   \<and> fst (get_or_make_sp sample_state (Some sample_sp_null)) = Some 11
   \<and> im_trace (snd (get_or_make_sp sample_state (Some sample_sp_null)))
       = im_trace sample_state @ [EvSectionPoint 11 1 ''Top'']
   \<and> sp_pool (snd (get_or_make_sp sample_state (Some sample_sp_null))) (1, ''Top'') = Some 11
   \<and> get_or_make_sp (snd (get_or_make_sp sample_state (Some sample_sp_null)))
         (Some sample_sp_one)
       = (Some 11, snd (get_or_make_sp sample_state (Some sample_sp_null)))"
proof -
  let ?h = "fst (get_or_make_sp sample_state (Some sample_sp_null))"
  let ?st1 = "snd (get_or_make_sp sample_state (Some sample_sp_null))"
  have h: "pj_number sample_sp_null = IsNone \<or> pj_number sample_sp_null = Missing"
    "pj_number sample_sp_one = Has 1"
    "pj_description sample_sp_null = pj_description sample_sp_one"
    by (simp_all add: sample_sp_null_def sample_sp_one_def)
  have pc: "pool_created sample_state"
    unfolding sample_state_def by (intro pool_created_import_steps pool_created_reopen)
  have k: "snd (sp_key sample_sp_one) = ''Top''"
    by (simp add: sp_key_def sample_sp_one_def)
  have c: "get_or_make_sp sample_state (Some sample_sp_null) = (?h, ?st1)" by simp
  note t = null_number_is_section_point_one [OF h pc, where h = ?h and ?st1.0 = ?st1,
      unfolded k]
  note ka = t [THEN conjunct1] and kb = t [THEN conjunct2, THEN conjunct1]
  from t [THEN conjunct2, THEN conjunct2, THEN conjunct1] have "\<forall>x y. (x = sample_sp_null \<and> y = sample_sp_one \<or> x = sample_sp_one \<and> y = sample_sp_null)
            \<and> get_or_make_sp sample_state (Some x) = (?h, ?st1)
            \<longrightarrow> (\<exists>sp_obj. ?h = Some sp_obj
                   \<and> sp_pool ?st1 (1, ''Top'') = Some sp_obj
                   \<and> EvSectionPoint sp_obj 1 ''Top'' \<in> set (im_trace ?st1)
                   \<and> get_or_make_sp ?st1 (Some y) = (Some sp_obj, ?st1)
                   \<and> pool_created ?st1
                   \<and> (sp_pool sample_state (1, ''Top'') = None
                        \<longrightarrow> sp_obj = length (im_trace sample_state)
                          \<and> im_trace ?st1 = im_trace sample_state
                               @ [EvSectionPoint sp_obj 1 ''Top''])
                   \<and> (sp_pool sample_state (1, ''Top'') \<noteq> None \<longrightarrow> ?st1 = sample_state))" .
  from this [rule_format, of sample_sp_null sample_sp_one] c
  obtain sp_obj where
    o: "?h = Some sp_obj" "sp_pool ?st1 (1, ''Top'') = Some sp_obj"
      "get_or_make_sp ?st1 (Some sample_sp_one) = (Some sp_obj, ?st1)"
      "sp_pool sample_state (1, ''Top'') = None
                        \<longrightarrow> sp_obj = length (im_trace sample_state)
                          \<and> im_trace ?st1 = im_trace sample_state
                               @ [EvSectionPoint sp_obj 1 ''Top'']"
    by auto
  from o(4) have "sp_obj = 11" "im_trace ?st1 = im_trace sample_state @ [EvSectionPoint 11 1 ''Top'']"
    by (simp_all add: sample_state_pool sample_state_length)
  with o h pc ka kb show ?thesis by simp
qed

text \<open>
  Claim C6, at a record whose step is absent from the catalog. The instance of the
  record exists, the catalog lists another step, and line 213 reads \<open>step_objs[sname]\<close>
  for a step that was never created: \<open>write_record\<close> raises \<open>KeyError\<close> and writes
  nothing, and the run ends there, also when the catalog is empty. A record whose step
  is in the catalog and whose frame is not gets its frame created and is written.
\<close>

theorem missing_step_raises_key_error:
  "step_objs sample_state ''Other_Step'' = None
   \<and> inst_map sample_state (r_instance sample_rec_no_step) \<noteq> None
   \<and> write_record sample_state sample_rec_no_step = (Some KeyError, sample_state)
   \<and> fst (import_main ''out.odb'' sample_mesh sample_steps
            [sample_rec_nodal, sample_rec_no_step, sample_rec_late]) = Some KeyError
   \<and> fst (import_main ''out.odb'' sample_mesh [] [sample_rec_nodal]) = Some KeyError
   \<and> fst (write_record sample_state sample_rec_late) = None"
  by (simp add: import_defs sample_import_defs)









end
